theory Spec2Isabelle
  imports Main "HOL-Library.Word"
begin

section \<open>Shared data\<close>

type_synonym byte = "8 word"

text \<open>
  Exceptions of the two modules as values.
  \<^item> \<open>CoordinateOutOfBounds x y\<close>: the \<open>ValueError\<close> of \<open>set_pixel\<close>
    ("Pixel coordinates out of bounds").
  \<^item> \<open>EmptyAnimation\<close>: the \<open>ValueError\<close> of \<open>display_animation\<close>
    ("No frames to display").
  \<^item> \<open>MalformedFramePayload\<close>: the \<open>ValueError\<close> that \<open>reshape((64, 64, 3))\<close>
    raises on a buffer whose size is not 64*64*3.
  \<^item> \<open>DecodeError\<close>: the exception of \<open>base64.b64decode\<close> on text it cannot decode.
  \<^item> \<open>TransportFailure\<close>: an exception coming out of the HTTP exchange of
    \<open>send_command\<close>.
\<close>

datatype error =
    CoordinateOutOfBounds int int
  | EmptyAnimation
  | MalformedFramePayload
  | DecodeError
  | TransportFailure

text \<open>
  The JSON object of a \<open>Draw/SendHttpGif\<close> request. A key that is absent from the
  dictionary is \<open>None\<close>, so that \<open>data.get(key, default)\<close> can be written out.
  \<open>PicData\<close> is typed \<open>Optional[Union[str, bytes]]\<close> in the receiver.
\<close>

datatype pic_data = PicStr string | PicBytes "byte list"

record gif_message =
  Command :: "string option"
  PicNum :: "int option"
  PicWidth :: "int option"
  PicOffset :: "int option"
  PicID :: "int option"
  PicSpeed :: "int option"
  PicData :: "pic_data option"

text \<open>
  The dictionary literal that \<open>display_animation\<close> builds for one frame: every key
  is present, and \<open>PicData\<close> is base64 text.
\<close>

definition payload :: "int \<Rightarrow> int \<Rightarrow> int \<Rightarrow> int \<Rightarrow> int \<Rightarrow> string \<Rightarrow> gif_message" where
  "payload pic_num pic_width pic_offset pic_id speed data =
     \<lparr> Command = Some ''Draw/SendHttpGif'', PicNum = Some pic_num, PicWidth = Some pic_width,
       PicOffset = Some pic_offset, PicID = Some pic_id, PicSpeed = Some speed,
       PicData = Some (PicStr data) \<rparr>"

text \<open>\<open>d.get(key, default)\<close> on an optional field.\<close>

definition dict_get :: "'a option \<Rightarrow> 'a \<Rightarrow> 'a" where
  "dict_get field dflt = (case field of None \<Rightarrow> dflt | Some v \<Rightarrow> v)"

section \<open>simulator.py: AnimationManager\<close>

text \<open>
  A frame is the \<open>np.ndarray\<close> of an \<open>AnimationFrame\<close>; \<open>reshape\<close> does not change
  the bytes, so the frame is kept as the flat byte sequence of length 64*64*3.

  \<open>current_animation\<close> and \<open>next_animation\<close> hold Python lists. \<open>finalize_animation\<close>
  assigns one attribute to the other without copying and \<open>add_frame\<close> appends in place,
  so the two attributes can name the same list object. The lists therefore live in an
  explicit store and the attributes are references into it.
\<close>

type_synonym frame = "byte list"
type_synonym ref = nat

record animation_manager =
  heap :: "ref \<Rightarrow> frame list"
  current_animation :: ref
  next_animation :: ref
  current_frame :: int
  frame_delay :: int
  receiving_frames :: bool

text \<open>The list values behind the two attributes.\<close>

definition published :: "animation_manager \<Rightarrow> frame list" where
  "published am = heap am (current_animation am)"

definition pending :: "animation_manager \<Rightarrow> frame list" where
  "pending am = heap am (next_animation am)"

text \<open>\<open>AnimationManager.__init__\<close>: two distinct empty lists.\<close>

definition init_manager :: animation_manager where
  "init_manager =
     \<lparr> heap = (\<lambda>_. []), current_animation = 0, next_animation = 1,
       current_frame = 0, frame_delay = 100, receiving_frames = False \<rparr>"

text \<open>
  Evaluating the list display \<open>[]\<close> creates a list object distinct from every live one;
  the manager's live lists are the two it references.
\<close>

definition new_list :: "animation_manager \<Rightarrow> ref" where
  "new_list am = Suc (max (current_animation am) (next_animation am))"

definition start_new_animation :: "animation_manager \<Rightarrow> animation_manager" where
  "start_new_animation am =
     (let am1 = am\<lparr>receiving_frames := True\<rparr>;
          r = new_list am1
      in am1\<lparr>heap := (heap am1)(r := []), next_animation := r\<rparr>)"

definition add_frame :: "frame \<Rightarrow> animation_manager \<Rightarrow> animation_manager" where
  "add_frame frame_data am =
     am\<lparr>heap := (heap am)(next_animation am := heap am (next_animation am) @ [frame_data])\<rparr>"

definition finalize_animation :: "animation_manager \<Rightarrow> animation_manager" where
  "finalize_animation am =
     (let am1 = am\<lparr>current_frame := 0\<rparr>;
          am2 = am1\<lparr>current_animation := next_animation am1\<rparr>
      in am2\<lparr>receiving_frames := False\<rparr>)"

text \<open>Python list indexing: a negative index counts from the end, out of range raises.\<close>

definition py_index :: "'a list \<Rightarrow> int \<Rightarrow> 'a option" where
  "py_index xs i =
     (if 0 \<le> i \<and> i < int (length xs) then Some (xs ! nat i)
      else if - int (length xs) \<le> i \<and> i < 0 then Some (xs ! nat (int (length xs) + i))
      else None)"

text \<open>
  \<open>get_current_frame\<close>: the result and the manager afterwards (the \<open>IndexError\<close>
  handler resets the index).
\<close>

definition get_current_frame :: "animation_manager \<Rightarrow> frame option \<times> animation_manager" where
  "get_current_frame am =
     (if published am = [] \<or> receiving_frames am then (None, am)
      else (case py_index (published am) (current_frame am) of
              Some f \<Rightarrow> (Some f, am)
            | None \<Rightarrow> (None, am\<lparr>current_frame := 0\<rparr>)))"

definition advance_frame :: "animation_manager \<Rightarrow> animation_manager" where
  "advance_frame am =
     (if published am \<noteq> [] then
        am\<lparr>current_frame := (current_frame am + 1) mod int (length (published am))\<rparr>
      else am)"

section \<open>simulator.py: Pixoo64Simulator\<close>

text \<open>
  \<open>base64.b64decode\<close> is library code: it is a parameter, \<open>None\<close> where it raises.
  The lines of \<open>_handle_send_gif\<close> that turn \<open>PicData\<close> into raw bytes:
\<close>

definition decode_payload :: "(string \<Rightarrow> byte list option) \<Rightarrow> pic_data \<Rightarrow> byte list option" where
  "decode_payload b64decode pd =
     (case pd of PicStr s \<Rightarrow> b64decode s | PicBytes b \<Rightarrow> Some b)"

text \<open>
  \<open>_handle_send_gif\<close>. An exception leaves the assignments made before it in place,
  so the manager is returned next to the outcome.
\<close>

definition handle_send_gif ::
  "(string \<Rightarrow> byte list option) \<Rightarrow> gif_message \<Rightarrow> animation_manager
     \<Rightarrow> (error + unit) \<times> animation_manager" where
  "handle_send_gif b64decode data am =
     (let pic_data = PicData data;
          pic_offset = dict_get (PicOffset data) 0;
          pic_num = dict_get (PicNum data) 1;
          am1 = am\<lparr>frame_delay := dict_get (PicSpeed data) 100\<rparr>
      in case pic_data of
           None \<Rightarrow> (Inr (), am1)
         | Some pd \<Rightarrow>
             (case decode_payload b64decode pd of
                None \<Rightarrow> (Inl DecodeError, am1)
              | Some frame_data \<Rightarrow>
                  if length frame_data \<noteq> 64 * 64 * 3 then (Inl MalformedFramePayload, am1)
                  else
                    let am2 = (if pic_offset = 0 then start_new_animation am1 else am1);
                        am3 = add_frame frame_data am2;
                        am4 = (if pic_offset = pic_num - 1 then finalize_animation am3 else am3)
                    in (Inr (), am4)))"

text \<open>
  \<open>handle_post\<close>: the request is \<open>None\<close> when its body is not a JSON object, so that
  \<open>request.json()\<close> or \<open>data.get\<close> raises. Every exception is caught and answered
  with status 500; the response is its error code and HTTP status.
\<close>

record response =
  error_code :: int
  status :: int

definition handle_post ::
  "(string \<Rightarrow> byte list option) \<Rightarrow> gif_message option \<Rightarrow> animation_manager
     \<Rightarrow> response \<times> animation_manager" where
  "handle_post b64decode request am =
     (case request of
        None \<Rightarrow> (\<lparr>error_code = 1, status = 500\<rparr>, am)
      | Some data \<Rightarrow>
          if Command data = Some ''Draw/SendHttpGif'' then
            (case handle_send_gif b64decode data am of
               (Inl e, am') \<Rightarrow> (\<lparr>error_code = 1, status = 500\<rparr>, am')
             | (Inr u, am') \<Rightarrow> (\<lparr>error_code = 0, status = 200\<rparr>, am'))
          else (\<lparr>error_code = 0, status = 200\<rparr>, am))"

text \<open>
  One pass through the body of \<open>run_display\<close> at a moment when the frame delay has
  elapsed: the frame handed to \<open>update_display\<close>, if any, and the manager afterwards.
\<close>

definition render_tick :: "animation_manager \<Rightarrow> frame option \<times> animation_manager" where
  "render_tick am =
     (case get_current_frame am of
        (Some f, am') \<Rightarrow> (Some f, advance_frame am')
      | (None, am') \<Rightarrow> (None, am'))"

section \<open>pixoo.py: the frame buffer\<close>

text \<open>
  The buffer is the 64 by 64 RGB image behind \<open>self._buffer\<close>, one byte per channel:
  a grid of colours indexed by \<open>(x, y)\<close>. \<open>self.buffer_width\<close> is set to 64 by
  \<open>__init__\<close> and never assigned again, so it is a constant here. Only cells with
  both coordinates in \<open>[0, 64)\<close> belong to the image; \<open>set_pixel\<close> writes no other.
\<close>

type_synonym color = "byte \<times> byte \<times> byte"
type_synonym buffer = "int \<times> int \<Rightarrow> color"

definition buffer_width :: int where
  "buffer_width = 64"

text \<open>\<open>_init_buffer\<close>: a black image.\<close>

definition init_buffer :: buffer where
  "init_buffer = (\<lambda>p. (0, 0, 0))"

definition set_pixel :: "int \<Rightarrow> int \<Rightarrow> color \<Rightarrow> buffer \<Rightarrow> error + buffer" where
  "set_pixel x y color buf =
     (if 0 \<le> x \<and> x < buffer_width \<and> 0 \<le> y \<and> y < buffer_width
      then Inr (buf((x, y) := color))
      else Inl (CoordinateOutOfBounds x y))"

section \<open>pixoo.py: sending an animation\<close>

text \<open>
  \<open>Pixoo64Animation\<close>. Its delay field is \<open>frame_delay\<close> in the source; the name is
  taken by the simulator's manager here.
\<close>

record pixoo64_animation =
  encoded_frames :: "byte list list"
  anim_frame_delay :: int
  pic_width :: int

text \<open>The part of \<open>DivoomPixoo64\<close> that changes: the identifier counter and the image.\<close>

record divoom_pixoo64 =
  pic_id_counter :: int
  buffer :: buffer

definition get_next_pic_id :: "divoom_pixoo64 \<Rightarrow> int \<times> divoom_pixoo64" where
  "get_next_pic_id d = (pic_id_counter d + 1, d\<lparr>pic_id_counter := pic_id_counter d + 1\<rparr>)"

text \<open>
  The wire is the list of messages whose HTTP exchange has completed, oldest first. The
  transport is outside the program: it is a parameter that says, from the messages
  exchanged so far and the next one, whether the exchange completes or raises.
  \<open>base64.b64encode(frame).decode('utf-8')\<close> is a parameter as well.
\<close>

type_synonym wire = "gif_message list"

definition send_command ::
  "(wire \<Rightarrow> gif_message \<Rightarrow> bool) \<Rightarrow> gif_message \<Rightarrow> wire \<Rightarrow> (error + unit) \<times> wire" where
  "send_command transport p w =
     (if transport w p then (Inr (), w @ [p]) else (Inl TransportFailure, w))"

text \<open>
  The \<open>for\<close> loop of \<open>display_animation\<close> over the enumerated frames: each message is
  awaited before the next is built, and an exception ends the loop.
\<close>

fun send_frames ::
  "(wire \<Rightarrow> gif_message \<Rightarrow> bool) \<Rightarrow> (byte list \<Rightarrow> string) \<Rightarrow> int \<Rightarrow> int \<Rightarrow> int \<Rightarrow> int
     \<Rightarrow> (nat \<times> byte list) list \<Rightarrow> wire \<Rightarrow> (error + unit) \<times> wire" where
  "send_frames transport b64encode pic_num width pic_id delay [] w = (Inr (), w)"
| "send_frames transport b64encode pic_num width pic_id delay ((pic_offset, frame) # rest) w =
     (case send_command transport
             (payload pic_num width (int pic_offset) pic_id delay (b64encode frame)) w of
        (Inl e, w') \<Rightarrow> (Inl e, w')
      | (Inr u, w') \<Rightarrow> send_frames transport b64encode pic_num width pic_id delay rest w')"

definition display_animation ::
  "(wire \<Rightarrow> gif_message \<Rightarrow> bool) \<Rightarrow> (byte list \<Rightarrow> string) \<Rightarrow> pixoo64_animation \<Rightarrow> int option
     \<Rightarrow> divoom_pixoo64 \<Rightarrow> wire \<Rightarrow> (error + unit) \<times> divoom_pixoo64 \<times> wire" where
  "display_animation transport b64encode img pic_id d w =
     (if encoded_frames img = [] then (Inl EmptyAnimation, d, w)
      else
        let (pid, d1) = (case pic_id of None \<Rightarrow> get_next_pic_id d | Some i \<Rightarrow> (i, d));
            pic_num = min (int (length (encoded_frames img))) 60;
            width = pic_width img
        in case send_frames transport b64encode pic_num width pid (anim_frame_delay img)
                  (enumerate 0 (take 60 (encoded_frames img))) w of
             (r, w') \<Rightarrow> (r, d1, w'))"

section \<open>pixoo.py: drawing\<close>

text \<open>
  The drawing methods read and write \<open>self._buffer\<close> only, so they are functions of
  the image. \<open>draw_line\<close> calls \<open>set_pixel\<close> directly. When \<open>set_pixel\<close> raises, the pixels
  written before stay in the image, so the failure carries the image as it was left.
  The two \<open>while\<close> loops run until the major coordinate equals its target; with a step
  that leads away from the target they would not stop, so not returning is the value
  \<open>None\<close>.
\<close>

partial_function (option) draw_line_x ::
  "int \<Rightarrow> int \<Rightarrow> int \<Rightarrow> int \<Rightarrow> int \<Rightarrow> color \<Rightarrow> int \<Rightarrow> int \<Rightarrow> int \<Rightarrow> buffer
     \<Rightarrow> (error \<times> buffer + buffer) option" where
  "draw_line_x x1 dx dy sx sy color x y err buf =
     (if x \<noteq> x1 then
        (case set_pixel x y color buf of
           Inl e \<Rightarrow> Some (Inl (e, buf))
         | Inr buf' \<Rightarrow>
             if err - dy < 0
             then draw_line_x x1 dx dy sx sy color (x + sx) (y + sy) (err - dy + dx) buf'
             else draw_line_x x1 dx dy sx sy color (x + sx) y (err - dy) buf')
      else
        (case set_pixel x y color buf of
           Inl e \<Rightarrow> Some (Inl (e, buf))
         | Inr buf' \<Rightarrow> Some (Inr buf')))"

partial_function (option) draw_line_y ::
  "int \<Rightarrow> int \<Rightarrow> int \<Rightarrow> int \<Rightarrow> int \<Rightarrow> color \<Rightarrow> int \<Rightarrow> int \<Rightarrow> int \<Rightarrow> buffer
     \<Rightarrow> (error \<times> buffer + buffer) option" where
  "draw_line_y y1 dx dy sx sy color x y err buf =
     (if y \<noteq> y1 then
        (case set_pixel x y color buf of
           Inl e \<Rightarrow> Some (Inl (e, buf))
         | Inr buf' \<Rightarrow>
             if err - dx < 0
             then draw_line_y y1 dx dy sx sy color (x + sx) (y + sy) (err - dx + dy) buf'
             else draw_line_y y1 dx dy sx sy color x (y + sy) (err - dx) buf')
      else
        (case set_pixel x y color buf of
           Inl e \<Rightarrow> Some (Inl (e, buf))
         | Inr buf' \<Rightarrow> Some (Inr buf')))"

text \<open>The recursion equations of the two loops are their code.\<close>

declare draw_line_x.simps [code]
declare draw_line_y.simps [code]

definition draw_line ::
  "int \<Rightarrow> int \<Rightarrow> int \<Rightarrow> int \<Rightarrow> color \<Rightarrow> buffer \<Rightarrow> (error \<times> buffer + buffer) option" where
  "draw_line x0 y0 x1 y1 color buf =
     (let dx = \<bar>x1 - x0\<bar>;
          dy = \<bar>y1 - y0\<bar>;
          sx = (if x0 < x1 then 1 else - 1);
          sy = (if y0 < y1 then 1 else - 1)
      in if dx > dy then draw_line_x x1 dx dy sx sy color x0 y0 (dx div 2) buf
         else draw_line_y y1 dx dy sx sy color x0 y0 (dy div 2) buf)"

text \<open>
  \<open>draw_circle\<close> and \<open>draw_rectangle\<close> test the coordinates before each call of
  \<open>set_pixel\<close>; a pixel off the canvas is skipped.
\<close>

definition set_pixel_clipped :: "int \<Rightarrow> int \<Rightarrow> color \<Rightarrow> buffer \<Rightarrow> error \<times> buffer + buffer" where
  "set_pixel_clipped px py color buf =
     (if 0 \<le> px \<and> px < buffer_width \<and> 0 \<le> py \<and> py < buffer_width then
        (case set_pixel px py color buf of Inl e \<Rightarrow> Inl (e, buf) | Inr buf' \<Rightarrow> Inr buf')
      else Inr buf)"

text \<open>A \<open>for\<close> loop over a sequence, with a body that may raise.\<close>

fun for_each ::
  "'a list \<Rightarrow> ('a \<Rightarrow> buffer \<Rightarrow> error \<times> buffer + buffer) \<Rightarrow> buffer \<Rightarrow> error \<times> buffer + buffer" where
  "for_each [] body buf = Inr buf"
| "for_each (v # vs) body buf =
     (case body v buf of Inl e \<Rightarrow> Inl e | Inr buf' \<Rightarrow> for_each vs body buf')"

text \<open>
  The \<open>while x >= y\<close> loop of the midpoint algorithm, collecting \<open>outline_points\<close>.
  The source keeps them in a set; here they are a list without repetitions. The order
  in which Python iterates over the set is not fixed, and it does not matter: every
  write stores the same colour.
\<close>

function circle_outline ::
  "int \<Rightarrow> int \<Rightarrow> int \<Rightarrow> int \<Rightarrow> int \<Rightarrow> (int \<times> int) list \<Rightarrow> (int \<times> int) list" where
  "circle_outline cx cy x y d outline_points =
     (if x \<ge> y then
        (let pts = fold List.insert
                     [(cx + x, cy + y), (cx - x, cy + y), (cx + x, cy - y), (cx - x, cy - y),
                      (cx + y, cy + x), (cx - y, cy + x), (cx + y, cy - x), (cx - y, cy - x)]
                     outline_points
         in if d < 0 then circle_outline cx cy x (y + 1) (d + (2 * (y + 1) + 1)) pts
            else circle_outline cx cy (x - 1) (y + 1) (d + (2 * ((y + 1) - (x - 1)) + 1)) pts)
      else outline_points)"
  by pat_completeness auto
termination
  by (relation "measure (\<lambda>(cx, cy, x, y, d, pts). nat (x - y + 1))") auto

text \<open>
  \<open>range(a, b)\<close> is the list \<open>[a..b - 1]\<close>, so \<open>range(a, b + 1)\<close> is \<open>[a..b]\<close>.
\<close>

definition draw_circle ::
  "int \<Rightarrow> int \<Rightarrow> int \<Rightarrow> color \<Rightarrow> color option \<Rightarrow> buffer \<Rightarrow> error \<times> buffer + buffer" where
  "draw_circle cx cy radius outline_color fill_color buf =
     (case (case fill_color of
              None \<Rightarrow> Inr buf
            | Some fc \<Rightarrow>
                for_each [- radius..radius] (\<lambda>y_off.
                  for_each [- radius..radius] (\<lambda>x_off b.
                    if x_off * x_off + y_off * y_off \<le> radius * radius
                    then set_pixel_clipped (cx + x_off) (cy + y_off) fc b
                    else Inr b)) buf) of
        Inl e \<Rightarrow> Inl e
      | Inr buf1 \<Rightarrow>
          for_each (circle_outline cx cy radius 0 (1 - radius) [])
            (\<lambda>(px, py). set_pixel_clipped px py outline_color) buf1)"

definition draw_rectangle ::
  "int \<Rightarrow> int \<Rightarrow> int \<Rightarrow> int \<Rightarrow> color \<Rightarrow> color option \<Rightarrow> buffer \<Rightarrow> error \<times> buffer + buffer" where
  "draw_rectangle x0 y0 x1 y1 outline_color fill_color buf =
     (case (case fill_color of
              None \<Rightarrow> Inr buf
            | Some fc \<Rightarrow>
                for_each [min y0 y1 + 1..max y0 y1 - 1] (\<lambda>y.
                  for_each [min x0 x1 + 1..max x0 x1 - 1] (\<lambda>x.
                    set_pixel_clipped x y fc)) buf) of
        Inl e \<Rightarrow> Inl e
      | Inr buf1 \<Rightarrow>
          (case for_each [min x0 x1..max x0 x1] (\<lambda>x.
                  for_each [min y0 y1, max y0 y1] (\<lambda>y.
                    set_pixel_clipped x y outline_color)) buf1 of
             Inl e \<Rightarrow> Inl e
           | Inr buf2 \<Rightarrow>
               for_each [min y0 y1..max y0 y1] (\<lambda>y.
                 for_each [min x0 x1, max x0 x1] (\<lambda>x.
                   set_pixel_clipped x y outline_color)) buf2))"

section \<open>Auxiliary definitions\<close>

text \<open>
  The receiving loop: the server calls \<open>handle_post\<close> once per request, in arrival
  order, and carries on after a request that failed.
\<close>

definition serve ::
  "(string \<Rightarrow> byte list option) \<Rightarrow> gif_message list \<Rightarrow> animation_manager \<Rightarrow> animation_manager" where
  "serve b64decode requests am = foldl (\<lambda>a r. snd (handle_post b64decode (Some r) a)) am requests"

text \<open>
  The frame a message carries: its payload, decoded, when that has exactly 64*64*3
  bytes (the test that \<open>reshape\<close> makes).
\<close>

definition frame_of :: "(string \<Rightarrow> byte list option) \<Rightarrow> gif_message \<Rightarrow> frame option" where
  "frame_of b64decode data =
     (case PicData data of
        None \<Rightarrow> None
      | Some pd \<Rightarrow>
          (case decode_payload b64decode pd of
             None \<Rightarrow> None
           | Some bs \<Rightarrow> if length bs = 64 * 64 * 3 then Some bs else None))"

subsection \<open>Example data\<close>

text \<open>
  Two frames, their base64 texts (three zero bytes encode as \<open>AAAA\<close>, three bytes 255
  as \<open>////\<close>), and \<open>base64.b64decode\<close> on the texts the examples use.
\<close>

definition black_frame :: frame where
  "black_frame = replicate (64 * 64 * 3) 0"

definition white_frame :: frame where
  "white_frame = replicate (64 * 64 * 3) 255"

definition black_frame_b64 :: string where
  "black_frame_b64 = concat (replicate (64 * 64) ''AAAA'')"

definition white_frame_b64 :: string where
  "white_frame_b64 = concat (replicate (64 * 64) ''////'')"

definition b64decode_table :: "string \<Rightarrow> byte list option" where
  "b64decode_table s =
     (if s = ''AAAA'' then Some [0, 0, 0]
      else if s = black_frame_b64 then Some black_frame
      else if s = white_frame_b64 then Some white_frame
      else None)"

subsection \<open>The pixels of a line\<close>

text \<open>
  The sequence of pixels one of the loops passes to \<open>set_pixel\<close>, major coordinate
  first: \<open>a\<close> and \<open>b\<close> are the extents along the major and the minor axis, \<open>sa\<close> and
  \<open>sb\<close> the steps, \<open>n\<close> the number of iterations left, \<open>(u, v)\<close> the current pixel
  and \<open>err\<close> the error term.
\<close>

fun bresenham :: "int \<Rightarrow> int \<Rightarrow> int \<Rightarrow> int \<Rightarrow> nat \<Rightarrow> int \<Rightarrow> int \<Rightarrow> int \<Rightarrow> (int \<times> int) list" where
  "bresenham a b sa sb 0 u v err = [(u, v)]"
| "bresenham a b sa sb (Suc n) u v err =
     (u, v) # (if err - b < 0 then bresenham a b sa sb n (u + sa) (v + sb) (err - b + a)
               else bresenham a b sa sb n (u + sa) v (err - b))"

definition line_pixels :: "int \<Rightarrow> int \<Rightarrow> int \<Rightarrow> int \<Rightarrow> (int \<times> int) list" where
  "line_pixels x0 y0 x1 y1 =
     (let dx = \<bar>x1 - x0\<bar>;
          dy = \<bar>y1 - y0\<bar>;
          sx = (if x0 < x1 then 1 else - 1);
          sy = (if y0 < y1 then 1 else - 1)
      in if dx > dy then bresenham dx dy sx sy (nat dx) x0 y0 (dx div 2)
         else map prod.swap (bresenham dy dx sy sx (nat dy) y0 x0 (dy div 2)))"

text \<open>Writing a sequence of pixels with \<open>set_pixel\<close>, stopping where it raises.\<close>

fun set_pixels :: "(int \<times> int) list \<Rightarrow> color \<Rightarrow> buffer \<Rightarrow> error \<times> buffer + buffer" where
  "set_pixels [] color buf = Inr buf"
| "set_pixels ((x, y) # ps) color buf =
     (case set_pixel x y color buf of
        Inl e \<Rightarrow> Inl (e, buf)
      | Inr buf' \<Rightarrow> set_pixels ps color buf')"

text \<open>The image with the pixels of \<open>ps\<close> in one colour and the rest as before.\<close>

definition paint :: "(int \<times> int) list \<Rightarrow> color \<Rightarrow> buffer \<Rightarrow> buffer" where
  "paint ps color buf = (\<lambda>p. if p \<in> set ps then color else buf p)"

definition on_canvas :: "int \<times> int \<Rightarrow> bool" where
  "on_canvas p = (0 \<le> fst p \<and> fst p < buffer_width \<and> 0 \<le> snd p \<and> snd p < buffer_width)"

section \<open>Facts about the example data\<close>

lemma length_black_frame [simp]: "length black_frame = 12288"
  by (simp add: black_frame_def)

lemma length_white_frame [simp]: "length white_frame = 12288"
  by (simp add: white_frame_def)

lemma white_neq_black [simp]: "white_frame \<noteq> black_frame"
  by (simp add: white_frame_def black_frame_def)

lemma length_black_frame_b64: "length black_frame_b64 = 16384"
  by (simp add: black_frame_b64_def length_concat sum_list_replicate)

lemma length_white_frame_b64: "length white_frame_b64 = 16384"
  by (simp add: white_frame_b64_def length_concat sum_list_replicate)

lemma hd_concat_replicate: "0 < n \<Longrightarrow> hd (concat (replicate n (x # xs))) = x"
  by (cases n) simp_all

lemma hd_black_frame_b64: "hd black_frame_b64 = CHR ''A''"
  by (simp add: black_frame_b64_def hd_concat_replicate)

lemma hd_white_frame_b64: "hd white_frame_b64 = CHR ''/''"
  by (simp add: white_frame_b64_def hd_concat_replicate)

lemma b64decode_table_short [simp]: "b64decode_table ''AAAA'' = Some [0, 0, 0]"
  by (simp add: b64decode_table_def)

lemma b64decode_table_black [simp]: "b64decode_table black_frame_b64 = Some black_frame"
proof -
  have "black_frame_b64 \<noteq> ''AAAA''"
  proof
    assume "black_frame_b64 = ''AAAA''"
    then have "length black_frame_b64 = length ''AAAA''" by (rule arg_cong)
    then show False by (simp add: length_black_frame_b64)
  qed
  then show ?thesis by (simp add: b64decode_table_def)
qed

lemma b64decode_table_white [simp]: "b64decode_table white_frame_b64 = Some white_frame"
proof -
  have "white_frame_b64 \<noteq> ''AAAA''"
  proof
    assume "white_frame_b64 = ''AAAA''"
    then have "length white_frame_b64 = length ''AAAA''" by (rule arg_cong)
    then show False by (simp add: length_white_frame_b64)
  qed
  moreover have "white_frame_b64 \<noteq> black_frame_b64"
    using hd_black_frame_b64 hd_white_frame_b64 by auto
  ultimately show ?thesis by (simp add: b64decode_table_def)
qed

section \<open>Facts about the receiver\<close>

lemma frame_of_SomeD:
  assumes "frame_of dec m = Some f"
  shows "\<exists>pd. PicData m = Some pd \<and> decode_payload dec pd = Some f \<and> length f = 64 * 64 * 3"
  using assms by (auto simp add: frame_of_def split: option.splits if_splits)

lemma frame_of_payload_black [simp]:
  "frame_of b64decode_table (payload n w off i sp black_frame_b64) = Some black_frame"
  by (simp add: frame_of_def payload_def decode_payload_def)

lemma frame_of_payload_white [simp]:
  "frame_of b64decode_table (payload n w off i sp white_frame_b64) = Some white_frame"
  by (simp add: frame_of_def payload_def decode_payload_def)

text \<open>The list that \<open>start_new_animation\<close> creates is neither of the live ones.\<close>

lemma new_list_fresh [simp]:
  "new_list am \<noteq> current_animation am" "new_list am \<noteq> next_animation am"
  "current_animation am \<noteq> new_list am" "next_animation am \<noteq> new_list am"
  by (simp_all add: new_list_def max_def)

lemma new_list_update [simp]:
  "new_list (am\<lparr>receiving_frames := b\<rparr>) = new_list am"
  "new_list (am\<lparr>frame_delay := d\<rparr>) = new_list am"
  by (simp_all add: new_list_def)

text \<open>What a message with a well-formed payload does, field by field.\<close>

lemma handle_send_gif_frame:
  assumes "frame_of dec m = Some f"
  shows "handle_send_gif dec m am =
           (Inr (),
            (let am1 = am\<lparr>frame_delay := dict_get (PicSpeed m) 100\<rparr>;
                 am2 = (if dict_get (PicOffset m) 0 = 0 then start_new_animation am1 else am1);
                 am3 = add_frame f am2
             in if dict_get (PicOffset m) 0 = dict_get (PicNum m) 1 - 1
                then finalize_animation am3 else am3))"
proof -
  from frame_of_SomeD [OF assms] obtain pd where
    "PicData m = Some pd" "decode_payload dec pd = Some f" "length f = 64 * 64 * 3"
    by blast
  then show ?thesis by (simp add: handle_send_gif_def Let_def)
qed

lemma handle_send_gif_frame_ok:
  assumes "frame_of dec m = Some f"
  shows "fst (handle_send_gif dec m am) = Inr ()"
  by (simp add: handle_send_gif_frame [OF assms])

lemma pending_after_frame:
  assumes "frame_of dec m = Some f"
  shows "pending (snd (handle_send_gif dec m am)) =
           (if dict_get (PicOffset m) 0 = 0 then [] else pending am) @ [f]"
  by (simp add: handle_send_gif_frame [OF assms] Let_def pending_def
      start_new_animation_def add_frame_def finalize_animation_def)

lemma published_after_last:
  assumes "frame_of dec m = Some f" "dict_get (PicOffset m) 0 = dict_get (PicNum m) 1 - 1"
  shows "published (snd (handle_send_gif dec m am)) =
           (if dict_get (PicOffset m) 0 = 0 then [] else pending am) @ [f]"
    and "current_frame (snd (handle_send_gif dec m am)) = 0"
    and "\<not> receiving_frames (snd (handle_send_gif dec m am))"
    and "current_animation (snd (handle_send_gif dec m am)) =
           next_animation (snd (handle_send_gif dec m am))"
  using assms(2)
  by (simp_all add: handle_send_gif_frame [OF assms(1)] Let_def pending_def published_def
      start_new_animation_def add_frame_def finalize_animation_def)

lemma after_first_of_many:
  assumes "frame_of dec m = Some f" "dict_get (PicOffset m) 0 = 0" "dict_get (PicNum m) 1 \<noteq> 1"
  shows "published (snd (handle_send_gif dec m am)) = published am"
    and "current_frame (snd (handle_send_gif dec m am)) = current_frame am"
    and "receiving_frames (snd (handle_send_gif dec m am))"
  using assms(2,3)
  by (simp_all add: handle_send_gif_frame [OF assms(1)] Let_def published_def
      start_new_animation_def add_frame_def)

lemma frame_delay_overwritten:
  "frame_delay (snd (handle_send_gif dec m am)) = dict_get (PicSpeed m) 100"
  by (simp add: handle_send_gif_def Let_def start_new_animation_def add_frame_def
      finalize_animation_def split: option.splits)

lemma handle_post_send_gif:
  assumes "Command m = Some ''Draw/SendHttpGif''"
  shows "snd (handle_post dec (Some m) am) = snd (handle_send_gif dec m am)"
  using assms by (simp add: handle_post_def split: prod.splits sum.splits)

lemma serve_Nil [simp]: "serve dec [] am = am"
  by (simp add: serve_def)

lemma serve_Cons_payload [simp]:
  "serve dec (payload n w off i sp d # ms) am =
     serve dec ms (snd (handle_send_gif dec (payload n w off i sp d) am))"
  by (simp add: serve_def handle_post_send_gif payload_def)

lemma serve_snoc:
  "serve dec (ms @ [m]) am = snd (handle_post dec (Some m) (serve dec ms am))"
  by (simp add: serve_def)

lemma dict_get_simps [simp]:
  "dict_get (Some v) dflt = v" "dict_get None dflt = dflt"
  by (simp_all add: dict_get_def)

lemma payload_fields [simp]:
  "PicSpeed (payload n w off i sp d) = Some sp"
  "PicID (payload n w off i sp d) = Some i"
  "PicNum (payload n w off i sp d) = Some n"
  "PicOffset (payload n w off i sp d) = Some off"
  "Command (payload n w off i sp d) = Some ''Draw/SendHttpGif''"
  by (simp_all add: payload_def)

text \<open>The fields of the manager after a message with a well-formed payload.\<close>

lemma receive_frame_fields:
  assumes "frame_of dec m = Some f"
  shows "published (snd (handle_send_gif dec m am)) =
           (if dict_get (PicOffset m) 0 = dict_get (PicNum m) 1 - 1
            then (if dict_get (PicOffset m) 0 = 0 then [] else pending am) @ [f]
            else if dict_get (PicOffset m) 0 = 0 then published am
            else if current_animation am = next_animation am then published am @ [f]
            else published am)"
    and "receiving_frames (snd (handle_send_gif dec m am)) =
           (dict_get (PicOffset m) 0 \<noteq> dict_get (PicNum m) 1 - 1
            \<and> (dict_get (PicOffset m) 0 = 0 \<or> receiving_frames am))"
    and "current_frame (snd (handle_send_gif dec m am)) =
           (if dict_get (PicOffset m) 0 = dict_get (PicNum m) 1 - 1 then 0 else current_frame am)"
    and "(current_animation (snd (handle_send_gif dec m am)) =
            next_animation (snd (handle_send_gif dec m am))) =
           (dict_get (PicOffset m) 0 = dict_get (PicNum m) 1 - 1
            \<or> (dict_get (PicOffset m) 0 \<noteq> 0 \<and> current_animation am = next_animation am))"
  by (auto simp add: handle_send_gif_frame [OF assms] Let_def pending_def published_def
      start_new_animation_def add_frame_def finalize_animation_def)

lemma init_manager_fields [simp]:
  "published init_manager = []" "pending init_manager = []"
  "current_animation init_manager \<noteq> next_animation init_manager"
  "current_frame init_manager = 0" "frame_delay init_manager = 100"
  "\<not> receiving_frames init_manager"
  by (simp_all add: init_manager_def published_def pending_def)

section \<open>Which messages enter an accumulation\<close>

text \<open>
  C1 as stated: while the reassembler is receiving, a message is appended to the pending
  accumulator only if its PicID and PicNum equal those of the accumulation in progress.
  It fails: after the first message of sequence 401 (three frames announced) the
  reassembler is receiving, and a message of sequence 999 (seven frames announced) is
  appended to the same accumulator.
\<close>

theorem foreign_message_is_appended:
  "receiving_frames (serve b64decode_table [payload 3 64 0 401 100 black_frame_b64] init_manager)
   \<and> pending (serve b64decode_table [payload 3 64 0 401 100 black_frame_b64] init_manager)
       = [black_frame]
   \<and> PicID (payload 7 64 1 999 100 white_frame_b64) \<noteq> PicID (payload 3 64 0 401 100 black_frame_b64)
   \<and> PicNum (payload 7 64 1 999 100 white_frame_b64) \<noteq> PicNum (payload 3 64 0 401 100 black_frame_b64)
   \<and> pending (serve b64decode_table
         [payload 3 64 0 401 100 black_frame_b64, payload 7 64 1 999 100 white_frame_b64]
         init_manager)
       = [black_frame, white_frame]"
  by (simp add: receive_frame_fields pending_after_frame)

text \<open>
  C1 as amended: while receiving, every message whose payload decodes to exactly 64*64*3
  bytes is handled without error and its frame is appended to the pending accumulator
  (which a message with offset 0 empties first), whatever PicID and PicNum it carries:
  replacing the two fields by any other values gives the same accumulator.
\<close>

theorem every_frame_is_appended:
  assumes "receiving_frames am" and "frame_of dec m = Some f"
  shows "fst (handle_send_gif dec m am) = Inr ()
         \<and> pending (snd (handle_send_gif dec m am)) =
             (if dict_get (PicOffset m) 0 = 0 then [] else pending am) @ [f]
         \<and> pending (snd (handle_send_gif dec (m\<lparr>PicID := i, PicNum := n\<rparr>) am)) =
             pending (snd (handle_send_gif dec m am))"
proof -
  have same: "frame_of dec (m\<lparr>PicID := i, PicNum := n\<rparr>) = Some f"
    using assms(2) by (simp add: frame_of_def)
  have "fst (handle_send_gif dec m am) = Inr ()"
    by (simp add: handle_send_gif_frame [OF assms(2)])
  moreover have "pending (snd (handle_send_gif dec (m\<lparr>PicID := i, PicNum := n\<rparr>) am)) =
      pending (snd (handle_send_gif dec m am))"
    by (simp add: pending_after_frame [OF same] pending_after_frame [OF assms(2)])
  ultimately show ?thesis
    by (simp add: pending_after_frame [OF assms(2)])
qed

theorem every_frame_is_appended_witness:
  "receiving_frames (serve b64decode_table [payload 3 64 0 401 100 black_frame_b64] init_manager)
   \<and> pending (snd (handle_send_gif b64decode_table (payload 3 64 1 401 100 white_frame_b64)
         (serve b64decode_table [payload 3 64 0 401 100 black_frame_b64] init_manager)))
       = [black_frame, white_frame]
   \<and> pending (snd (handle_send_gif b64decode_table
         ((payload 3 64 1 401 100 white_frame_b64)\<lparr>PicID := Some 999, PicNum := None\<rparr>)
         (serve b64decode_table [payload 3 64 0 401 100 black_frame_b64] init_manager)))
       = [black_frame, white_frame]"
  using every_frame_is_appended
    [where am = "serve b64decode_table [payload 3 64 0 401 100 black_frame_b64] init_manager"
       and dec = b64decode_table and m = "payload 3 64 1 401 100 white_frame_b64"
       and f = white_frame and i = "Some 999" and n = None]
  by (simp add: receive_frame_fields pending_after_frame)

section \<open>Malformed payloads\<close>

text \<open>
  C3 as stated: a message whose payload decodes to a length other than 64*64*3 leaves the
  whole receiver state, frame delay included, as it was. It fails: the payload
  \<open>AAAA\<close> decodes to three bytes, the message is refused, and the frame delay has
  gone from 100 to the message's PicSpeed, 50.
\<close>

theorem malformed_payload_changes_delay:
  "decode_payload b64decode_table (PicStr ''AAAA'') = Some [0, 0, 0]
   \<and> fst (handle_send_gif b64decode_table (payload 1 64 0 7 50 ''AAAA'') init_manager)
       = Inl MalformedFramePayload
   \<and> frame_delay init_manager = 100
   \<and> frame_delay (snd (handle_send_gif b64decode_table (payload 1 64 0 7 50 ''AAAA'') init_manager))
       = 50
   \<and> snd (handle_post b64decode_table (Some (payload 1 64 0 7 50 ''AAAA'')) init_manager)
       \<noteq> init_manager"
proof -
  have "frame_delay (snd (handle_post b64decode_table (Some (payload 1 64 0 7 50 ''AAAA''))
          init_manager)) = 50"
    by (simp add: handle_post_send_gif frame_delay_overwritten)
  moreover have "frame_delay init_manager = 100"
    by simp
  ultimately have "snd (handle_post b64decode_table (Some (payload 1 64 0 7 50 ''AAAA''))
      init_manager) \<noteq> init_manager"
    by auto
  then show ?thesis
    by (simp add: frame_delay_overwritten decode_payload_def handle_send_gif_def payload_def)
qed

text \<open>
  C3 as amended: a Draw/SendHttpGif message whose payload decodes to a length other than
  64*64*3 is refused with an error that \<open>handle_post\<close> turns into a status-500 answer;
  the pending accumulator, the receiving flag, the published animation and the frame
  index are as before, and the frame delay is the message's PicSpeed (100 if absent).
\<close>

theorem malformed_payload_is_contained:
  assumes "Command m = Some ''Draw/SendHttpGif''"
    and "PicData m = Some pd" and "decode_payload dec pd = Some bs"
    and "length bs \<noteq> 64 * 64 * 3"
  shows "handle_send_gif dec m am =
           (Inl MalformedFramePayload, am\<lparr>frame_delay := dict_get (PicSpeed m) 100\<rparr>)
         \<and> handle_post dec (Some m) am =
           (\<lparr>error_code = 1, status = 500\<rparr>, am\<lparr>frame_delay := dict_get (PicSpeed m) 100\<rparr>)"
  using assms by (simp add: handle_post_def handle_send_gif_def Let_def)

theorem malformed_payload_is_contained_witness:
  "handle_post b64decode_table (Some (payload 1 64 0 7 50 ''AAAA'')) init_manager =
     (\<lparr>error_code = 1, status = 500\<rparr>, init_manager\<lparr>frame_delay := 50\<rparr>)"
  using malformed_payload_is_contained
    [where m = "payload 1 64 0 7 50 ''AAAA''" and pd = "PicStr ''AAAA''"
       and dec = b64decode_table and bs = "[0, 0, 0]" and am = init_manager]
  by (simp add: payload_def decode_payload_def)

section \<open>Finalization\<close>

text \<open>
  C4: a message with a well-formed payload whose offset equals its announced total minus
  one finalizes. The whole pending list, this frame last, becomes the published
  animation; the frame index is 0 and the receiving flag is cleared. In particular,
  from any receiver state, messages with offsets 0, 1, 2 and total 3 arriving in order
  leave exactly their three frames published, in submission order, at index 0.
\<close>

theorem last_offset_publishes:
  "(frame_of dec m = Some f \<and> dict_get (PicOffset m) 0 = dict_get (PicNum m) 1 - 1 \<longrightarrow>
      fst (handle_send_gif dec m am) = Inr ()
      \<and> published (snd (handle_send_gif dec m am)) =
          (if dict_get (PicOffset m) 0 = 0 then [] else pending am) @ [f]
      \<and> published (snd (handle_send_gif dec m am)) = pending (snd (handle_send_gif dec m am))
      \<and> current_frame (snd (handle_send_gif dec m am)) = 0
      \<and> \<not> receiving_frames (snd (handle_send_gif dec m am)))
   \<and> (frame_of dec m0 = Some f0 \<and> frame_of dec m1 = Some f1 \<and> frame_of dec m2 = Some f2
      \<and> PicOffset m0 = Some 0 \<and> PicOffset m1 = Some 1 \<and> PicOffset m2 = Some 2
      \<and> PicNum m0 = Some 3 \<and> PicNum m1 = Some 3 \<and> PicNum m2 = Some 3 \<longrightarrow>
      published (snd (handle_send_gif dec m2 (snd (handle_send_gif dec m1
          (snd (handle_send_gif dec m0 am)))))) = [f0, f1, f2]
      \<and> current_frame (snd (handle_send_gif dec m2 (snd (handle_send_gif dec m1
          (snd (handle_send_gif dec m0 am)))))) = 0
      \<and> \<not> receiving_frames (snd (handle_send_gif dec m2 (snd (handle_send_gif dec m1
          (snd (handle_send_gif dec m0 am)))))))"
proof (intro conjI impI)
  assume h: "frame_of dec m = Some f \<and> dict_get (PicOffset m) 0 = dict_get (PicNum m) 1 - 1"
  then have f: "frame_of dec m = Some f"
    and l: "dict_get (PicOffset m) 0 = dict_get (PicNum m) 1 - 1"
    by simp_all
  show "fst (handle_send_gif dec m am) = Inr ()"
    by (simp add: handle_send_gif_frame [OF f])
  show "published (snd (handle_send_gif dec m am)) =
      (if dict_get (PicOffset m) 0 = 0 then [] else pending am) @ [f]"
    by (rule published_after_last(1) [OF f l])
  show "published (snd (handle_send_gif dec m am)) = pending (snd (handle_send_gif dec m am))"
    using published_after_last(4) [OF f l, of am] by (simp add: published_def pending_def)
  show "current_frame (snd (handle_send_gif dec m am)) = 0"
    by (rule published_after_last(2) [OF f l])
  show "\<not> receiving_frames (snd (handle_send_gif dec m am))"
    by (rule published_after_last(3) [OF f l])
next
  assume h: "frame_of dec m0 = Some f0 \<and> frame_of dec m1 = Some f1 \<and> frame_of dec m2 = Some f2
      \<and> PicOffset m0 = Some 0 \<and> PicOffset m1 = Some 1 \<and> PicOffset m2 = Some 2
      \<and> PicNum m0 = Some 3 \<and> PicNum m1 = Some 3 \<and> PicNum m2 = Some 3"
  then have f0: "frame_of dec m0 = Some f0" and f1: "frame_of dec m1 = Some f1"
    and f2: "frame_of dec m2 = Some f2"
    by simp_all
  have p1: "pending (snd (handle_send_gif dec m1 (snd (handle_send_gif dec m0 am)))) = [f0, f1]"
    using h by (simp add: pending_after_frame [OF f1] pending_after_frame [OF f0])
  show "published (snd (handle_send_gif dec m2 (snd (handle_send_gif dec m1
          (snd (handle_send_gif dec m0 am)))))) = [f0, f1, f2]"
    using h p1 by (simp add: receive_frame_fields(1) [OF f2])
  show "current_frame (snd (handle_send_gif dec m2 (snd (handle_send_gif dec m1
          (snd (handle_send_gif dec m0 am)))))) = 0"
    using h by (simp add: receive_frame_fields(3) [OF f2])
  show "\<not> receiving_frames (snd (handle_send_gif dec m2 (snd (handle_send_gif dec m1
          (snd (handle_send_gif dec m0 am))))))"
    using h by (simp add: receive_frame_fields(2) [OF f2])
qed

theorem last_offset_publishes_witness:
  "published (snd (handle_send_gif b64decode_table (payload 1 64 0 400 100 white_frame_b64)
       init_manager)) = [white_frame]
   \<and> published (snd (handle_send_gif b64decode_table (payload 3 64 2 401 100 black_frame_b64)
       (snd (handle_send_gif b64decode_table (payload 3 64 1 401 100 white_frame_b64)
         (snd (handle_send_gif b64decode_table (payload 3 64 0 401 100 black_frame_b64)
           init_manager)))))) = [black_frame, white_frame, black_frame]
   \<and> current_frame (snd (handle_send_gif b64decode_table (payload 3 64 2 401 100 black_frame_b64)
       (snd (handle_send_gif b64decode_table (payload 3 64 1 401 100 white_frame_b64)
         (snd (handle_send_gif b64decode_table (payload 3 64 0 401 100 black_frame_b64)
           init_manager)))))) = 0"
  using last_offset_publishes
    [where dec = b64decode_table and am = init_manager
       and m = "payload 1 64 0 400 100 white_frame_b64" and f = white_frame
       and ?m0.0 = "payload 3 64 0 401 100 black_frame_b64" and ?f0.0 = black_frame
       and ?m1.0 = "payload 3 64 1 401 100 white_frame_b64" and ?f1.0 = white_frame
       and ?m2.0 = "payload 3 64 2 401 100 black_frame_b64" and ?f2.0 = black_frame]
  by simp

section \<open>Restarting on offset 0\<close>

text \<open>
  C5 as stated: a well-formed message with offset 0 starts a fresh accumulation and
  leaves the previously published animation untouched. It fails when the message
  announces a single frame: offset 0 is then also the last offset. Here one black frame
  is published, a four-frame sequence is half received, and a one-frame message with a
  white frame arrives: without any error the published animation is now the white frame.
\<close>

theorem single_frame_restart_replaces_published:
  "published (serve b64decode_table
       [payload 1 64 0 400 100 black_frame_b64,
        payload 4 64 0 401 100 black_frame_b64, payload 4 64 1 401 100 black_frame_b64]
       init_manager) = [black_frame]
   \<and> pending (serve b64decode_table
       [payload 1 64 0 400 100 black_frame_b64,
        payload 4 64 0 401 100 black_frame_b64, payload 4 64 1 401 100 black_frame_b64]
       init_manager) = [black_frame, black_frame]
   \<and> receiving_frames (serve b64decode_table
       [payload 1 64 0 400 100 black_frame_b64,
        payload 4 64 0 401 100 black_frame_b64, payload 4 64 1 401 100 black_frame_b64]
       init_manager)
   \<and> fst (handle_send_gif b64decode_table (payload 1 64 0 402 100 white_frame_b64)
       (serve b64decode_table
         [payload 1 64 0 400 100 black_frame_b64,
          payload 4 64 0 401 100 black_frame_b64, payload 4 64 1 401 100 black_frame_b64]
         init_manager)) = Inr ()
   \<and> published (snd (handle_send_gif b64decode_table (payload 1 64 0 402 100 white_frame_b64)
       (serve b64decode_table
         [payload 1 64 0 400 100 black_frame_b64,
          payload 4 64 0 401 100 black_frame_b64, payload 4 64 1 401 100 black_frame_b64]
         init_manager))) = [white_frame]
   \<and> [white_frame] \<noteq> [black_frame]"
  by (simp add: receive_frame_fields pending_after_frame handle_send_gif_frame_ok)

text \<open>
  C5 as amended: from every receiver state, a well-formed message with offset 0 is
  handled without error and starts a fresh accumulation that holds its frame only, so no
  frame of a discarded partial sequence remains. The previously published animation, the
  frame index and the receiving state are as C5 says unless the message announces a
  total of 1 (or none, the default being 1): then it is also the last message and its
  one-frame accumulation is published at once.
\<close>

theorem offset_zero_restarts:
  assumes "frame_of dec m = Some f" and "dict_get (PicOffset m) 0 = 0"
  shows "fst (handle_send_gif dec m am) = Inr ()
         \<and> pending (snd (handle_send_gif dec m am)) = [f]
         \<and> (if dict_get (PicNum m) 1 = 1
            then published (snd (handle_send_gif dec m am)) = [f]
                 \<and> current_frame (snd (handle_send_gif dec m am)) = 0
                 \<and> \<not> receiving_frames (snd (handle_send_gif dec m am))
            else published (snd (handle_send_gif dec m am)) = published am
                 \<and> current_frame (snd (handle_send_gif dec m am)) = current_frame am
                 \<and> receiving_frames (snd (handle_send_gif dec m am)))"
proof -
  have "fst (handle_send_gif dec m am) = Inr ()"
    by (simp add: handle_send_gif_frame [OF assms(1)])
  moreover have "pending (snd (handle_send_gif dec m am)) = [f]"
    using assms(2) by (simp add: pending_after_frame [OF assms(1)])
  moreover have "published (snd (handle_send_gif dec m am)) = [f]
      \<and> current_frame (snd (handle_send_gif dec m am)) = 0
      \<and> \<not> receiving_frames (snd (handle_send_gif dec m am))"
    if "dict_get (PicNum m) 1 = 1"
    using that assms(2) published_after_last [OF assms(1), of am] by simp
  moreover have "published (snd (handle_send_gif dec m am)) = published am
      \<and> current_frame (snd (handle_send_gif dec m am)) = current_frame am
      \<and> receiving_frames (snd (handle_send_gif dec m am))"
    if "dict_get (PicNum m) 1 \<noteq> 1"
    using that after_first_of_many [OF assms, of am] by simp
  ultimately show ?thesis
    by simp
qed

theorem offset_zero_restarts_witness:
  "pending (snd (handle_send_gif b64decode_table (payload 2 64 0 402 100 white_frame_b64)
       (serve b64decode_table
         [payload 1 64 0 400 100 black_frame_b64,
          payload 4 64 0 401 100 black_frame_b64, payload 4 64 1 401 100 black_frame_b64]
         init_manager))) = [white_frame]
   \<and> published (snd (handle_send_gif b64decode_table (payload 2 64 0 402 100 white_frame_b64)
       (serve b64decode_table
         [payload 1 64 0 400 100 black_frame_b64,
          payload 4 64 0 401 100 black_frame_b64, payload 4 64 1 401 100 black_frame_b64]
         init_manager))) = [black_frame]
   \<and> pending (snd (handle_send_gif b64decode_table (payload 1 64 0 402 100 white_frame_b64)
       init_manager)) = [white_frame]
   \<and> published (snd (handle_send_gif b64decode_table (payload 1 64 0 402 100 white_frame_b64)
       init_manager)) = [white_frame]"
  using offset_zero_restarts
    [where dec = b64decode_table and m = "payload 2 64 0 402 100 white_frame_b64"
       and f = white_frame
       and am = "serve b64decode_table
         [payload 1 64 0 400 100 black_frame_b64,
          payload 4 64 0 401 100 black_frame_b64, payload 4 64 1 401 100 black_frame_b64]
         init_manager"]
    offset_zero_restarts
    [where dec = b64decode_table and m = "payload 1 64 0 402 100 white_frame_b64"
       and f = white_frame and am = init_manager]
  by (simp add: receive_frame_fields pending_after_frame)

lemma published_update_current_frame [simp]:
  "published (am\<lparr>current_frame := k\<rparr>) = published am"
  by (simp add: published_def)

lemma render_tick_plays:
  assumes "\<not> receiving_frames am" and "py_index (published am) (current_frame am) = Some f"
  shows "render_tick am =
           (Some f, am\<lparr>current_frame := (current_frame am + 1) mod int (length (published am))\<rparr>)"
proof -
  have "published am \<noteq> []"
    using assms(2) by (auto simp add: py_index_def split: if_splits)
  then show ?thesis
    using assms by (simp add: render_tick_def get_current_frame_def advance_frame_def)
qed

section \<open>Playback during reception\<close>

text \<open>
  C9: whenever the receiving flag is set, \<open>get_current_frame\<close> returns \<open>None\<close> and
  leaves the manager as it is, whatever the published animation holds, so the render
  tick hands no frame to the display and does not advance. The flag is set by a
  well-formed message with offset 0 and stays set under every well-formed message that is
  not the last of its sequence, so playback pauses from that message until finalization.
\<close>

theorem receiving_blocks_playback:
  "(receiving_frames am \<longrightarrow>
      get_current_frame am = (None, am) \<and> render_tick am = (None, am))
   \<and> (frame_of dec m = Some f \<and> dict_get (PicOffset m) 0 \<noteq> dict_get (PicNum m) 1 - 1
      \<and> (dict_get (PicOffset m) 0 = 0 \<or> receiving_frames am) \<longrightarrow>
      receiving_frames (snd (handle_send_gif dec m am)))"
proof (intro conjI impI)
  assume "receiving_frames am"
  then show "get_current_frame am = (None, am)"
    by (simp add: get_current_frame_def)
  then show "render_tick am = (None, am)"
    by (simp add: render_tick_def)
next
  assume h: "frame_of dec m = Some f \<and> dict_get (PicOffset m) 0 \<noteq> dict_get (PicNum m) 1 - 1
      \<and> (dict_get (PicOffset m) 0 = 0 \<or> receiving_frames am)"
  then have "frame_of dec m = Some f"
    by simp
  from receive_frame_fields(2) [OF this, of am] h
  show "receiving_frames (snd (handle_send_gif dec m am))"
    by simp
qed

theorem receiving_blocks_playback_witness:
  "published (serve b64decode_table [payload 1 64 0 400 100 black_frame_b64] init_manager)
     = [black_frame]
   \<and> fst (render_tick (serve b64decode_table [payload 1 64 0 400 100 black_frame_b64]
       init_manager)) = Some black_frame
   \<and> published (snd (handle_send_gif b64decode_table (payload 3 64 0 401 100 white_frame_b64)
       (serve b64decode_table [payload 1 64 0 400 100 black_frame_b64] init_manager)))
     = [black_frame]
   \<and> receiving_frames (snd (handle_send_gif b64decode_table
       (payload 3 64 0 401 100 white_frame_b64)
       (serve b64decode_table [payload 1 64 0 400 100 black_frame_b64] init_manager)))
   \<and> fst (render_tick (snd (handle_send_gif b64decode_table
       (payload 3 64 0 401 100 white_frame_b64)
       (serve b64decode_table [payload 1 64 0 400 100 black_frame_b64] init_manager))))
     = None"
proof -
  have idx: "py_index [black_frame] 0 = Some black_frame"
    by (simp add: py_index_def)
  have r: "receiving_frames (snd (handle_send_gif b64decode_table
       (payload 3 64 0 401 100 white_frame_b64)
       (serve b64decode_table [payload 1 64 0 400 100 black_frame_b64] init_manager)))"
    using receiving_blocks_playback
      [where dec = b64decode_table and m = "payload 3 64 0 401 100 white_frame_b64"
         and f = white_frame
         and am = "serve b64decode_table [payload 1 64 0 400 100 black_frame_b64] init_manager"]
    by simp
  with receiving_blocks_playback
      [where am = "snd (handle_send_gif b64decode_table
         (payload 3 64 0 401 100 white_frame_b64)
         (serve b64decode_table [payload 1 64 0 400 100 black_frame_b64] init_manager))"]
  have "fst (render_tick (snd (handle_send_gif b64decode_table
       (payload 3 64 0 401 100 white_frame_b64)
       (serve b64decode_table [payload 1 64 0 400 100 black_frame_b64] init_manager))))
     = None"
    by simp
  with r show ?thesis
    using render_tick_plays
      [of "serve b64decode_table [payload 1 64 0 400 100 black_frame_b64] init_manager"
         black_frame]
    by (simp add: receive_frame_fields idx)
qed

section \<open>What a message changes\<close>

text \<open>
  C10 says that a message changes the published animation and the frame index only when
  it finalizes. Its first half holds (\<open>frame_delay_overwritten\<close>: every message, also a
  refused one, sets the frame delay). The second half fails on the code: after a
  finalization \<open>current_animation\<close> and \<open>next_animation\<close> are the same list, so the
  \<open>append\<close> of \<open>add_frame\<close> for a later message that neither has offset 0 nor is the
  last of its sequence also lengthens the published animation. Here a one-frame
  animation is published; then a message with offset 1 of 3 arrives.
\<close>

theorem stray_frame_alters_published:
  "published (serve b64decode_table [payload 1 64 0 400 100 black_frame_b64] init_manager)
     = [black_frame]
   \<and> dict_get (PicOffset (payload 3 64 1 401 100 white_frame_b64)) 0
     \<noteq> dict_get (PicNum (payload 3 64 1 401 100 white_frame_b64)) 1 - 1
   \<and> fst (handle_send_gif b64decode_table (payload 3 64 1 401 100 white_frame_b64)
       (serve b64decode_table [payload 1 64 0 400 100 black_frame_b64] init_manager)) = Inr ()
   \<and> published (snd (handle_send_gif b64decode_table (payload 3 64 1 401 100 white_frame_b64)
       (serve b64decode_table [payload 1 64 0 400 100 black_frame_b64] init_manager)))
     = [black_frame, white_frame]
   \<and> fst (render_tick (snd (render_tick (snd (handle_send_gif b64decode_table
       (payload 3 64 1 401 100 white_frame_b64)
       (serve b64decode_table [payload 1 64 0 400 100 black_frame_b64] init_manager))))))
     = Some white_frame"
proof -
  let ?s = "snd (handle_send_gif b64decode_table (payload 3 64 1 401 100 white_frame_b64)
       (serve b64decode_table [payload 1 64 0 400 100 black_frame_b64] init_manager))"
  have p: "published ?s = [black_frame, white_frame]"
    and r: "\<not> receiving_frames ?s" and c: "current_frame ?s = 0"
    by (simp_all add: receive_frame_fields)
  have "render_tick ?s = (Some black_frame, ?s\<lparr>current_frame := 1\<rparr>)"
    using render_tick_plays [of ?s black_frame] p r c by (simp add: py_index_def)
  moreover have "fst (render_tick (?s\<lparr>current_frame := 1\<rparr>)) = Some white_frame"
    using render_tick_plays [of "?s\<lparr>current_frame := 1\<rparr>" white_frame] p r
    by (simp add: py_index_def)
  ultimately have "fst (render_tick (snd (render_tick ?s))) = Some white_frame"
    by simp
  with p show ?thesis
    by (simp add: receive_frame_fields handle_send_gif_frame_ok)
qed

section \<open>Facts about the buffer and the encoder\<close>

text \<open>
  C7: for \<open>x\<close> and \<open>y\<close> in \<open>[0, 64)\<close> and any colour, \<open>set_pixel\<close> succeeds, the cell
  \<open>(x, y)\<close> then reads as that colour and every other cell is unchanged; for any
  \<open>x\<close> or \<open>y\<close> outside the range it fails with CoordinateOutOfBounds. There is no
  other outcome.
\<close>

theorem set_pixel_contract:
  "(0 \<le> x \<and> x < 64 \<and> 0 \<le> y \<and> y < 64 \<longrightarrow>
      (\<exists>buf'. set_pixel x y c buf = Inr buf' \<and> buf' (x, y) = c
         \<and> (\<forall>p. p \<noteq> (x, y) \<longrightarrow> buf' p = buf p)))
   \<and> (\<not> (0 \<le> x \<and> x < 64 \<and> 0 \<le> y \<and> y < 64) \<longrightarrow>
      set_pixel x y c buf = Inl (CoordinateOutOfBounds x y))"
  by (simp add: set_pixel_def buffer_width_def)

theorem set_pixel_contract_witness:
  "(\<exists>buf'. set_pixel 63 0 (255, 128, 0) init_buffer = Inr buf' \<and> buf' (63, 0) = (255, 128, 0)
      \<and> buf' (62, 0) = (0, 0, 0))
   \<and> set_pixel 64 0 (255, 128, 0) init_buffer = Inl (CoordinateOutOfBounds 64 0)
   \<and> set_pixel 5 (- 1) (255, 128, 0) init_buffer = Inl (CoordinateOutOfBounds 5 (- 1))"
  using set_pixel_contract [of 63 0 "(255, 128, 0)" init_buffer]
    set_pixel_contract [of 64 0 "(255, 128, 0)" init_buffer]
    set_pixel_contract [of 5 "- 1" "(255, 128, 0)" init_buffer]
  by (auto simp add: init_buffer_def)

lemma send_frames_delivered:
  assumes "\<And>h p. transport h p"
  shows "send_frames transport enc n pw pid delay xs w =
           (Inr (), w @ map (\<lambda>(i, fr). payload n pw (int i) pid delay (enc fr)) xs)"
  using assms by (induction xs arbitrary: w) (auto simp add: send_command_def)

lemma map_enumerate_take:
  "map (\<lambda>(i, fr). g i fr) (enumerate 0 (take k fs)) =
     map (\<lambda>i. g i (fs ! i)) [0..<min (length fs) k]"
  by (rule nth_equalityI) (simp_all add: nth_enumerate_eq)

text \<open>
  C6: encoding an animation with no frame fails with EmptyAnimation and sends nothing.
  Encoding one with at least one frame over a transport that completes every exchange
  sends exactly \<open>min(frame_count, 60)\<close> messages. The message at position \<open>i\<close> has
  the command \<open>Draw/SendHttpGif\<close>, PicOffset \<open>i\<close> and the encoding of frame \<open>i\<close> as
  PicData; every message has the same PicID (the one supplied, or the next of the
  counter), PicNum \<open>min(frame_count, 60)\<close>, PicWidth (the animation's width) and
  PicSpeed (the animation's delay), and no key is absent.
\<close>

theorem display_animation_messages:
  "(encoded_frames img = [] \<longrightarrow>
      display_animation transport enc img pic_id d w = (Inl EmptyAnimation, d, w))
   \<and> (encoded_frames img \<noteq> [] \<and> (\<forall>h p. transport h p) \<longrightarrow>
      display_animation transport enc img pic_id d w =
        (Inr (),
         (case pic_id of None \<Rightarrow> d\<lparr>pic_id_counter := pic_id_counter d + 1\<rparr> | Some i \<Rightarrow> d),
         w @ map (\<lambda>i. \<lparr> Command = Some ''Draw/SendHttpGif'',
                        PicNum = Some (int (min (length (encoded_frames img)) 60)),
                        PicWidth = Some (pic_width img),
                        PicOffset = Some (int i),
                        PicID = Some (case pic_id of None \<Rightarrow> pic_id_counter d + 1 | Some i \<Rightarrow> i),
                        PicSpeed = Some (anim_frame_delay img),
                        PicData = Some (PicStr (enc (encoded_frames img ! i))) \<rparr>)
               [0..<min (length (encoded_frames img)) 60])
      \<and> length (snd (snd (display_animation transport enc img pic_id d w))) =
          length w + min (length (encoded_frames img)) 60)"
proof (intro conjI impI)
  assume "encoded_frames img = []"
  then show "display_animation transport enc img pic_id d w = (Inl EmptyAnimation, d, w)"
    by (simp add: display_animation_def)
next
  assume h: "encoded_frames img \<noteq> [] \<and> (\<forall>h p. transport h p)"
  then have tr: "\<And>h p. transport h p"
    by simp
  have n: "min (int (length (encoded_frames img))) 60 =
      int (min (length (encoded_frames img)) 60)"
    by simp
  show eq: "display_animation transport enc img pic_id d w =
        (Inr (),
         (case pic_id of None \<Rightarrow> d\<lparr>pic_id_counter := pic_id_counter d + 1\<rparr> | Some i \<Rightarrow> d),
         w @ map (\<lambda>i. \<lparr> Command = Some ''Draw/SendHttpGif'',
                        PicNum = Some (int (min (length (encoded_frames img)) 60)),
                        PicWidth = Some (pic_width img),
                        PicOffset = Some (int i),
                        PicID = Some (case pic_id of None \<Rightarrow> pic_id_counter d + 1 | Some i \<Rightarrow> i),
                        PicSpeed = Some (anim_frame_delay img),
                        PicData = Some (PicStr (enc (encoded_frames img ! i))) \<rparr>)
               [0..<min (length (encoded_frames img)) 60])"
    using h
    by (simp only: display_animation_def send_frames_delivered [of transport, OF tr]
          map_enumerate_take n)
       (simp add: get_next_pic_id_def payload_def split: option.splits)
  show "length (snd (snd (display_animation transport enc img pic_id d w))) =
      length w + min (length (encoded_frames img)) 60"
    by (simp add: eq)
qed

theorem display_animation_messages_witness:
  "display_animation (\<lambda>h p. True) (\<lambda>fr. ''AAAA'')
       \<lparr>encoded_frames = [], anim_frame_delay = 250, pic_width = 64\<rparr>
       None \<lparr>pic_id_counter = 400, buffer = init_buffer\<rparr> []
     = (Inl EmptyAnimation, \<lparr>pic_id_counter = 400, buffer = init_buffer\<rparr>, [])
   \<and> length (snd (snd (display_animation (\<lambda>h p. True) (\<lambda>fr. ''AAAA'')
       \<lparr>encoded_frames = replicate 61 [0, 0, 0], anim_frame_delay = 250, pic_width = 64\<rparr>
       None \<lparr>pic_id_counter = 400, buffer = init_buffer\<rparr> []))) = 60
   \<and> snd (snd (display_animation (\<lambda>h p. True) (\<lambda>fr. ''AAAA'')
       \<lparr>encoded_frames = replicate 61 [0, 0, 0], anim_frame_delay = 250, pic_width = 64\<rparr>
       None \<lparr>pic_id_counter = 400, buffer = init_buffer\<rparr> [])) ! 0
     = \<lparr> Command = Some ''Draw/SendHttpGif'', PicNum = Some 60, PicWidth = Some 64,
         PicOffset = Some 0, PicID = Some 401, PicSpeed = Some 250,
         PicData = Some (PicStr ''AAAA'') \<rparr>
   \<and> snd (snd (display_animation (\<lambda>h p. True) (\<lambda>fr. ''AAAA'')
       \<lparr>encoded_frames = replicate 61 [0, 0, 0], anim_frame_delay = 250, pic_width = 64\<rparr>
       None \<lparr>pic_id_counter = 400, buffer = init_buffer\<rparr> [])) ! 59
     = \<lparr> Command = Some ''Draw/SendHttpGif'', PicNum = Some 60, PicWidth = Some 64,
         PicOffset = Some 59, PicID = Some 401, PicSpeed = Some 250,
         PicData = Some (PicStr ''AAAA'') \<rparr>
   \<and> PicWidth (snd (snd (display_animation (\<lambda>h p. True) (\<lambda>fr. ''AAAA'')
       \<lparr>encoded_frames = replicate 61 [0, 0, 0], anim_frame_delay = 250, pic_width = 64\<rparr>
       None \<lparr>pic_id_counter = 400, buffer = init_buffer\<rparr> [])) ! 59) = Some 64
   \<and> PicSpeed (snd (snd (display_animation (\<lambda>h p. True) (\<lambda>fr. ''AAAA'')
       \<lparr>encoded_frames = replicate 61 [0, 0, 0], anim_frame_delay = 250, pic_width = 64\<rparr>
       None \<lparr>pic_id_counter = 400, buffer = init_buffer\<rparr> [])) ! 59) = Some 250
   \<and> pic_id_counter (fst (snd (display_animation (\<lambda>h p. True) (\<lambda>fr. ''AAAA'')
       \<lparr>encoded_frames = replicate 61 [0, 0, 0], anim_frame_delay = 250, pic_width = 64\<rparr>
       None \<lparr>pic_id_counter = 400, buffer = init_buffer\<rparr> []))) = 401"
  using display_animation_messages
    [where transport = "\<lambda>h p. True" and enc = "\<lambda>fr. ''AAAA''"
       and img = "\<lparr>encoded_frames = [], anim_frame_delay = 250, pic_width = 64\<rparr>"
       and pic_id = None and d = "\<lparr>pic_id_counter = 400, buffer = init_buffer\<rparr>" and w = "[]"]
    display_animation_messages
    [where transport = "\<lambda>h p. True" and enc = "\<lambda>fr. ''AAAA''"
       and img = "\<lparr>encoded_frames = replicate 61 [0, 0, 0], anim_frame_delay = 250,
                      pic_width = 64\<rparr>"
       and pic_id = None and d = "\<lparr>pic_id_counter = 400, buffer = init_buffer\<rparr>" and w = "[]"]
  by simp

section \<open>Facts about lines\<close>

lemma draw_line_x_bresenham:
  assumes "sx = 1 \<or> sx = - 1" and "x1 = x + sx * int n"
  shows "draw_line_x x1 dx dy sx sy c x y err buf =
           Some (set_pixels (bresenham dx dy sx sy n x y err) c buf)"
  using assms
proof (induction n arbitrary: x y err buf)
  case 0
  then show ?case
    by (subst draw_line_x.simps) (simp split: sum.splits)
next
  case (Suc n)
  from Suc.prems have ne: "x \<noteq> x1"
    by auto
  from Suc.prems have nxt: "x1 = (x + sx) + sx * int n"
    by (auto simp add: algebra_simps)
  show ?case
    using ne Suc.IH [OF Suc.prems(1) nxt]
    by (subst draw_line_x.simps) (simp split: sum.splits)
qed

lemma draw_line_y_bresenham:
  assumes "sy = 1 \<or> sy = - 1" and "y1 = y + sy * int n"
  shows "draw_line_y y1 dx dy sx sy c x y err buf =
           Some (set_pixels (map prod.swap (bresenham dy dx sy sx n y x err)) c buf)"
  using assms
proof (induction n arbitrary: x y err buf)
  case 0
  then show ?case
    by (subst draw_line_y.simps) (simp split: sum.splits)
next
  case (Suc n)
  from Suc.prems have ne: "y \<noteq> y1"
    by auto
  from Suc.prems have nxt: "y1 = (y + sy) + sy * int n"
    by (auto simp add: algebra_simps)
  show ?case
    using ne Suc.IH [OF Suc.prems(1) nxt]
    by (subst draw_line_y.simps) (simp split: sum.splits)
qed

text \<open>\<open>draw_line\<close> returns for all arguments: it is \<open>set_pixel\<close> along \<open>line_pixels\<close>.\<close>

lemma draw_line_set_pixels:
  "draw_line x0 y0 x1 y1 c buf = Some (set_pixels (line_pixels x0 y0 x1 y1) c buf)"
proof -
  have x: "x1 = x0 + (if x0 < x1 then 1 else - 1) * int (nat \<bar>x1 - x0\<bar>)"
    by auto
  have y: "y1 = y0 + (if y0 < y1 then 1 else - 1) * int (nat \<bar>y1 - y0\<bar>)"
    by auto
  show ?thesis
  proof (cases "\<bar>x1 - x0\<bar> > \<bar>y1 - y0\<bar>")
    case True
    then show ?thesis
      using draw_line_x_bresenham [OF _ x]
      by (simp add: draw_line_def line_pixels_def Let_def)
  next
    case False
    then show ?thesis
      using draw_line_y_bresenham [OF _ y]
      by (simp add: draw_line_def line_pixels_def Let_def)
  qed
qed

lemma set_pixels_on_canvas:
  assumes "\<forall>p \<in> set ps. on_canvas p"
  shows "set_pixels ps c buf = Inr (paint ps c buf)"
  using assms
proof (induction ps arbitrary: buf)
  case Nil
  then show ?case by (simp add: paint_def)
next
  case (Cons p ps)
  obtain x y where p: "p = (x, y)" by (cases p)
  have ok: "set_pixel x y c buf = Inr (buf((x, y) := c))"
    using Cons.prems by (simp add: p on_canvas_def set_pixel_def)
  have "set_pixels (p # ps) c buf = set_pixels ps c (buf((x, y) := c))"
    by (simp add: p ok)
  also have "\<dots> = Inr (paint ps c (buf((x, y) := c)))"
    using Cons.prems by (intro Cons.IH) simp
  also have "paint ps c (buf((x, y) := c)) = paint (p # ps) c buf"
    by (auto simp add: paint_def p)
  finally show ?case .
qed

lemma length_bresenham [simp]: "length (bresenham a b sa sb n u v err) = Suc n"
  by (induction n arbitrary: u v err) simp_all

lemma bresenham_neq_Nil [simp]: "bresenham a b sa sb n u v err \<noteq> []"
  by (cases n) simp_all

lemma hd_bresenham [simp]: "hd (bresenham a b sa sb n u v err) = (u, v)"
  by (cases n) simp_all

lemma bresenham_nth_0 [simp]: "bresenham a b sa sb n u v err ! 0 = (u, v)"
  by (cases n) simp_all

lemma bresenham_major:
  "i \<le> n \<Longrightarrow> fst (bresenham a b sa sb n u v err ! i) = u + sa * int i"
proof (induction n arbitrary: u v err i)
  case 0
  then show ?case by simp
next
  case (Suc n)
  show ?case
  proof (cases i)
    case 0
    then show ?thesis by simp
  next
    case (Suc j)
    with Suc.prems have "j \<le> n" by simp
    then show ?thesis
      using Suc by (simp add: Suc.IH algebra_simps)
  qed
qed

lemma bresenham_minor_step:
  "i < n \<Longrightarrow>
     snd (bresenham a b sa sb n u v err ! Suc i) = snd (bresenham a b sa sb n u v err ! i)
     \<or> snd (bresenham a b sa sb n u v err ! Suc i) = snd (bresenham a b sa sb n u v err ! i) + sb"
proof (induction n arbitrary: u v err i)
  case 0
  then show ?case by simp
next
  case (Suc n)
  show ?case
  proof (cases i)
    case 0
    then show ?thesis by simp
  next
    case (Suc j)
    with Suc.prems have "j < n" by simp
    then show ?thesis
      using Suc Suc.IH [of j] by simp
  qed
qed

lemma bresenham_minor:
  assumes "0 \<le> b" and "b \<le> a" and "0 \<le> err" and "err < a"
  shows "\<exists>M. 0 \<le> M
           \<and> last (bresenham a b sa sb n u v err) = (u + sa * int n, v + sb * M)
           \<and> 0 \<le> err - int n * b + M * a \<and> err - int n * b + M * a < a
           \<and> (\<forall>p \<in> set (bresenham a b sa sb n u v err).
                \<exists>k m. k \<le> n \<and> 0 \<le> m \<and> m \<le> M \<and> p = (u + sa * int k, v + sb * m))"
  using assms(3,4)
proof (induction n arbitrary: u v err)
  case 0
  then show ?case
    by (intro exI [of _ 0]) auto
next
  case (Suc n)
  show ?case
  proof (cases "err - b < 0")
    case True
    have "0 \<le> err - b + a" "err - b + a < a"
      using True Suc.prems assms(1,2) by auto
    from Suc.IH [OF this, of "u + sa" "v + sb"] obtain M where M: "0 \<le> M"
      "last (bresenham a b sa sb n (u + sa) (v + sb) (err - b + a)) =
         (u + sa + sa * int n, v + sb + sb * M)"
      "0 \<le> err - b + a - int n * b + M * a" "err - b + a - int n * b + M * a < a"
      "\<forall>p \<in> set (bresenham a b sa sb n (u + sa) (v + sb) (err - b + a)).
         \<exists>k m. k \<le> n \<and> 0 \<le> m \<and> m \<le> M \<and> p = (u + sa + sa * int k, v + sb + sb * m)"
      by blast
    have pts: "\<exists>k m. k \<le> Suc n \<and> 0 \<le> m \<and> m \<le> M + 1 \<and> p = (u + sa * int k, v + sb * m)"
      if "p \<in> set (bresenham a b sa sb (Suc n) u v err)" for p
    proof (cases "p = (u, v)")
      case True
      then show ?thesis
        using M(1) by (intro exI [of _ 0]) auto
    next
      case False
      with that \<open>err - b < 0\<close>
      have "p \<in> set (bresenham a b sa sb n (u + sa) (v + sb) (err - b + a))"
        by simp
      with M(5) obtain k m where "k \<le> n" "0 \<le> m" "m \<le> M"
        "p = (u + sa + sa * int k, v + sb + sb * m)"
        by blast
      then show ?thesis
        by (intro exI [of _ "Suc k"] exI [of _ "m + 1"]) (simp add: algebra_simps)
    qed
    show ?thesis
      using M(1-4) pts True
      by (intro exI [of _ "M + 1"]) (simp add: algebra_simps)
  next
    case False
    have "0 \<le> err - b" "err - b < a"
      using False Suc.prems assms(1,2) by auto
    from Suc.IH [OF this, of "u + sa" v] obtain M where M: "0 \<le> M"
      "last (bresenham a b sa sb n (u + sa) v (err - b)) = (u + sa + sa * int n, v + sb * M)"
      "0 \<le> err - b - int n * b + M * a" "err - b - int n * b + M * a < a"
      "\<forall>p \<in> set (bresenham a b sa sb n (u + sa) v (err - b)).
         \<exists>k m. k \<le> n \<and> 0 \<le> m \<and> m \<le> M \<and> p = (u + sa + sa * int k, v + sb * m)"
      by blast
    have pts: "\<exists>k m. k \<le> Suc n \<and> 0 \<le> m \<and> m \<le> M \<and> p = (u + sa * int k, v + sb * m)"
      if "p \<in> set (bresenham a b sa sb (Suc n) u v err)" for p
    proof (cases "p = (u, v)")
      case True
      then show ?thesis
        using M(1) by (intro exI [of _ 0]) auto
    next
      case neq: False
      with that False
      have "p \<in> set (bresenham a b sa sb n (u + sa) v (err - b))"
        by simp
      with M(5) obtain k m where "k \<le> n" "0 \<le> m" "m \<le> M"
        "p = (u + sa + sa * int k, v + sb * m)"
        by blast
      then show ?thesis
        by (intro exI [of _ "Suc k"] exI [of _ m]) (simp add: algebra_simps)
    qed
    show ?thesis
      using M(1-4) pts False
      by (intro exI [of _ M]) (simp add: algebra_simps)
  qed
qed

lemma minor_steps_total:
  fixes a b M :: int
  assumes "0 < a" and "0 \<le> a div 2 - a * b + M * a" and "a div 2 - a * b + M * a < a"
  shows "M = b"
proof -
  have half: "0 \<le> a div 2" "a div 2 < a"
    using assms(1) by simp_all
  have "(M - b) * a < 1 * a"
    using assms(3) half by (simp add: algebra_simps)
  then have up: "M - b < 1"
    using assms(1) by (simp only: mult_less_cancel_right_pos)
  have "(- 1) * a < (M - b) * a"
    using assms(2) half by (simp add: algebra_simps)
  then have "- 1 < M - b"
    using assms(1) by (simp only: mult_less_cancel_right_pos)
  with up show ?thesis
    by simp
qed

lemma bresenham_reflect_aux:
  "u' = U - u \<Longrightarrow> v' = V - v \<Longrightarrow>
     bresenham a b (- sa) (- sb) n u' v' err =
       map (\<lambda>(p, q). (U - p, V - q)) (bresenham a b sa sb n u v err)"
proof (induction n arbitrary: u v u' v' err)
  case 0
  then show ?case by simp
next
  case (Suc n)
  have u: "u' + - sa = U - (u + sa)" and v: "v' + - sb = V - (v + sb)"
    using Suc.prems by simp_all
  show ?case
    using Suc.IH [OF u v] Suc.IH [OF u Suc.prems(2)] Suc.prems by simp
qed

lemma bresenham_reflect:
  "bresenham a b (- sa) (- sb) n (U - u) (V - v) err =
     map (\<lambda>(p, q). (U - p, V - q)) (bresenham a b sa sb n u v err)"
  by (rule bresenham_reflect_aux) simp_all

lemma bresenham_flat:
  "0 \<le> err \<Longrightarrow> bresenham a 0 sa sb n u v err = bresenham a 0 sa sb' n u v err"
  by (induction n arbitrary: u err) simp_all

lemma bresenham_reverse:
  assumes "0 \<le> err" and "b = 0 \<or> sb' = - sb" and "u' = U - u" and "v' = V - v"
  shows "bresenham a b (- sa) sb' n u' v' err =
           map (\<lambda>(p, q). (U - p, V - q)) (bresenham a b sa sb n u v err)"
proof (cases "sb' = - sb")
  case True
  then show ?thesis
    using assms(3,4) by (simp add: bresenham_reflect_aux)
next
  case False
  with assms(2) have b: "b = 0"
    by simp
  have "bresenham a 0 (- sa) sb' n u' v' err = bresenham a 0 (- sa) (- sb) n u' v' err"
    using assms(1) by (rule bresenham_flat)
  then show ?thesis
    using assms(3,4) by (simp add: b bresenham_reflect_aux)
qed

text \<open>
  A full run: \<open>a\<close> iterations from error term \<open>a div 2\<close>, the minor extent not above
  the major one.
\<close>

lemma bresenham_run_last:
  assumes "0 < a" and "0 \<le> b" and "b \<le> a"
  shows "last (bresenham a b sa sb (nat a) u v (a div 2)) = (u + sa * a, v + sb * b)"
proof -
  have "0 \<le> a div 2" "a div 2 < a"
    using assms(1) by simp_all
  from bresenham_minor [OF assms(2,3) this, of sa sb "nat a" u v]
  obtain M where M: "last (bresenham a b sa sb (nat a) u v (a div 2)) =
      (u + sa * int (nat a), v + sb * M)"
    "0 \<le> a div 2 - int (nat a) * b + M * a" "a div 2 - int (nat a) * b + M * a < a"
    by blast
  have "M = b"
    using M(2,3) assms(1) by (intro minor_steps_total [of a]) simp_all
  then show ?thesis
    using M(1) assms(1) by simp
qed

lemma bresenham_run_box:
  assumes "0 < a" and "0 \<le> b" and "b \<le> a"
    and "sa = 1 \<or> sa = - 1" and "sb = 1 \<or> sb = - 1"
    and "p \<in> set (bresenham a b sa sb (nat a) u v (a div 2))"
  shows "min u (u + sa * a) \<le> fst p \<and> fst p \<le> max u (u + sa * a)
         \<and> min v (v + sb * b) \<le> snd p \<and> snd p \<le> max v (v + sb * b)"
proof -
  have "0 \<le> a div 2" "a div 2 < a"
    using assms(1) by simp_all
  from bresenham_minor [OF assms(2,3) this, of sa sb "nat a" u v]
  obtain M where M: "last (bresenham a b sa sb (nat a) u v (a div 2)) =
      (u + sa * int (nat a), v + sb * M)"
    "0 \<le> a div 2 - int (nat a) * b + M * a" "a div 2 - int (nat a) * b + M * a < a"
    "\<forall>p \<in> set (bresenham a b sa sb (nat a) u v (a div 2)).
       \<exists>k m. k \<le> nat a \<and> 0 \<le> m \<and> m \<le> M \<and> p = (u + sa * int k, v + sb * m)"
    by blast
  have "M = b"
    using M(2,3) assms(1) by (intro minor_steps_total [of a]) simp_all
  with M(4) assms(6) obtain k m where km: "k \<le> nat a" "0 \<le> m" "m \<le> b"
    "p = (u + sa * int k, v + sb * m)"
    by blast
  from km(1) assms(1) have "int k \<le> a"
    by linarith
  then show ?thesis
    using assms(4,5) km by auto
qed

lemma bresenham_distinct:
  assumes "sa = 1 \<or> sa = - 1"
  shows "distinct (bresenham a b sa sb n u v err)"
proof -
  have "bresenham a b sa sb n u v err ! i \<noteq> bresenham a b sa sb n u v err ! j"
    if "i \<le> n" "j \<le> n" "i \<noteq> j" for i j
  proof
    assume "bresenham a b sa sb n u v err ! i = bresenham a b sa sb n u v err ! j"
    then have "fst (bresenham a b sa sb n u v err ! i) = fst (bresenham a b sa sb n u v err ! j)"
      by simp
    then have "u + sa * int i = u + sa * int j"
      using that by (simp add: bresenham_major)
    with assms that(3) show False
      by auto
  qed
  then show ?thesis
    by (simp add: distinct_conv_nth less_Suc_eq_le)
qed

lemma bresenham_neighbours:
  assumes "sa = 1 \<or> sa = - 1" and "sb = 1 \<or> sb = - 1" and "i < n"
  shows "max \<bar>fst (bresenham a b sa sb n u v err ! Suc i) - fst (bresenham a b sa sb n u v err ! i)\<bar>
             \<bar>snd (bresenham a b sa sb n u v err ! Suc i) - snd (bresenham a b sa sb n u v err ! i)\<bar>
         = 1"
proof -
  have "fst (bresenham a b sa sb n u v err ! Suc i) - fst (bresenham a b sa sb n u v err ! i) = sa"
    using assms(3) by (simp add: bresenham_major algebra_simps)
  moreover have
    "snd (bresenham a b sa sb n u v err ! Suc i) - snd (bresenham a b sa sb n u v err ! i) = 0
     \<or> snd (bresenham a b sa sb n u v err ! Suc i) - snd (bresenham a b sa sb n u v err ! i) = sb"
    using bresenham_minor_step [OF assms(3), of a b sa sb u v err] by auto
  ultimately show ?thesis
    using assms(1,2) by auto
qed

subsection \<open>Lines between points of the canvas\<close>

lemma line_pixels_x_major:
  assumes "\<bar>x1 - x0\<bar> > \<bar>y1 - y0\<bar>"
  shows "line_pixels x0 y0 x1 y1 =
           bresenham \<bar>x1 - x0\<bar> \<bar>y1 - y0\<bar> (if x0 < x1 then 1 else - 1) (if y0 < y1 then 1 else - 1)
             (nat \<bar>x1 - x0\<bar>) x0 y0 (\<bar>x1 - x0\<bar> div 2)"
  using assms by (simp add: line_pixels_def Let_def)

lemma line_pixels_y_major:
  assumes "\<not> \<bar>x1 - x0\<bar> > \<bar>y1 - y0\<bar>"
  shows "line_pixels x0 y0 x1 y1 =
           map prod.swap
             (bresenham \<bar>y1 - y0\<bar> \<bar>x1 - x0\<bar> (if y0 < y1 then 1 else - 1) (if x0 < x1 then 1 else - 1)
                (nat \<bar>y1 - y0\<bar>) y0 x0 (\<bar>y1 - y0\<bar> div 2))"
  using assms by (simp add: line_pixels_def Let_def)

lemma line_pixels_point [simp]: "line_pixels x y x y = [(x, y)]"
  by (simp add: line_pixels_def)

lemma step_reaches:
  fixes x0 x1 :: int
  shows "x0 + (if x0 < x1 then 1 else - 1) * \<bar>x1 - x0\<bar> = x1"
  by simp

lemma length_line_pixels:
  "length (line_pixels x0 y0 x1 y1) = nat (max \<bar>x1 - x0\<bar> \<bar>y1 - y0\<bar>) + 1"
  by (cases "\<bar>x1 - x0\<bar> > \<bar>y1 - y0\<bar>")
    (simp_all add: line_pixels_x_major line_pixels_y_major max_def)

lemma hd_line_pixels: "hd (line_pixels x0 y0 x1 y1) = (x0, y0)"
  by (cases "\<bar>x1 - x0\<bar> > \<bar>y1 - y0\<bar>")
    (simp_all add: line_pixels_x_major line_pixels_y_major hd_map)

lemma last_line_pixels: "last (line_pixels x0 y0 x1 y1) = (x1, y1)"
proof (cases "\<bar>x1 - x0\<bar> > \<bar>y1 - y0\<bar>")
  case True
  then have "0 < \<bar>x1 - x0\<bar>" "0 \<le> \<bar>y1 - y0\<bar>" "\<bar>y1 - y0\<bar> \<le> \<bar>x1 - x0\<bar>"
    by simp_all
  from bresenham_run_last [OF this] show ?thesis
    by (simp only: line_pixels_x_major [OF True] step_reaches)
next
  case False
  show ?thesis
  proof (cases "y1 = y0")
    case True
    with False show ?thesis
      by simp
  next
    case ne: False
    with False have "0 < \<bar>y1 - y0\<bar>" "0 \<le> \<bar>x1 - x0\<bar>" "\<bar>x1 - x0\<bar> \<le> \<bar>y1 - y0\<bar>"
      by simp_all
    from bresenham_run_last [OF this] show ?thesis
      by (simp only: line_pixels_y_major [OF False] step_reaches last_map bresenham_neq_Nil
          not_False_eq_True swap_simp)
  qed
qed

lemma line_pixels_box:
  assumes "p \<in> set (line_pixels x0 y0 x1 y1)"
  shows "min x0 x1 \<le> fst p \<and> fst p \<le> max x0 x1 \<and> min y0 y1 \<le> snd p \<and> snd p \<le> max y0 y1"
proof (cases "\<bar>x1 - x0\<bar> > \<bar>y1 - y0\<bar>")
  case True
  then have "0 < \<bar>x1 - x0\<bar>" "0 \<le> \<bar>y1 - y0\<bar>" "\<bar>y1 - y0\<bar> \<le> \<bar>x1 - x0\<bar>"
    by simp_all
  from bresenham_run_box [OF this _ _ assms [unfolded line_pixels_x_major [OF True]]]
  show ?thesis
    by (simp only: step_reaches) simp
next
  case False
  show ?thesis
  proof (cases "y1 = y0")
    case True
    with False assms show ?thesis
      by simp
  next
    case ne: False
    with False have "0 < \<bar>y1 - y0\<bar>" "0 \<le> \<bar>x1 - x0\<bar>" "\<bar>x1 - x0\<bar> \<le> \<bar>y1 - y0\<bar>"
      by simp_all
    moreover from assms have "prod.swap p \<in> set (bresenham \<bar>y1 - y0\<bar> \<bar>x1 - x0\<bar>
        (if y0 < y1 then 1 else - 1) (if x0 < x1 then 1 else - 1)
        (nat \<bar>y1 - y0\<bar>) y0 x0 (\<bar>y1 - y0\<bar> div 2))"
      by (auto simp add: line_pixels_y_major [OF False])
    ultimately show ?thesis
      using bresenham_run_box [of "\<bar>y1 - y0\<bar>" "\<bar>x1 - x0\<bar>" "if y0 < y1 then 1 else - 1"
          "if x0 < x1 then 1 else - 1" "prod.swap p" y0 x0]
      by (simp only: step_reaches) simp
  qed
qed

lemma line_pixels_on_canvas:
  assumes "on_canvas (x0, y0)" and "on_canvas (x1, y1)"
  shows "\<forall>p \<in> set (line_pixels x0 y0 x1 y1). on_canvas p"
proof
  fix p
  assume "p \<in> set (line_pixels x0 y0 x1 y1)"
  from line_pixels_box [OF this] assms show "on_canvas p"
    by (auto simp add: on_canvas_def)
qed

lemma distinct_line_pixels: "distinct (line_pixels x0 y0 x1 y1)"
  by (cases "\<bar>x1 - x0\<bar> > \<bar>y1 - y0\<bar>")
    (simp_all add: line_pixels_x_major line_pixels_y_major bresenham_distinct distinct_map)

lemma line_pixels_neighbours:
  assumes "Suc i < length (line_pixels x0 y0 x1 y1)"
  shows "max \<bar>fst (line_pixels x0 y0 x1 y1 ! Suc i) - fst (line_pixels x0 y0 x1 y1 ! i)\<bar>
             \<bar>snd (line_pixels x0 y0 x1 y1 ! Suc i) - snd (line_pixels x0 y0 x1 y1 ! i)\<bar> = 1"
proof (cases "\<bar>x1 - x0\<bar> > \<bar>y1 - y0\<bar>")
  case True
  with assms have "i < nat \<bar>x1 - x0\<bar>"
    by (simp add: line_pixels_x_major)
  then show ?thesis
    by (simp only: line_pixels_x_major [OF True]) (rule bresenham_neighbours, simp_all)
next
  case False
  with assms have i: "i < nat \<bar>y1 - y0\<bar>"
    by (simp add: line_pixels_y_major)
  have "max \<bar>fst (bresenham \<bar>y1 - y0\<bar> \<bar>x1 - x0\<bar> (if y0 < y1 then 1 else - 1)
            (if x0 < x1 then 1 else - 1) (nat \<bar>y1 - y0\<bar>) y0 x0 (\<bar>y1 - y0\<bar> div 2) ! Suc i)
          - fst (bresenham \<bar>y1 - y0\<bar> \<bar>x1 - x0\<bar> (if y0 < y1 then 1 else - 1)
            (if x0 < x1 then 1 else - 1) (nat \<bar>y1 - y0\<bar>) y0 x0 (\<bar>y1 - y0\<bar> div 2) ! i)\<bar>
        \<bar>snd (bresenham \<bar>y1 - y0\<bar> \<bar>x1 - x0\<bar> (if y0 < y1 then 1 else - 1)
            (if x0 < x1 then 1 else - 1) (nat \<bar>y1 - y0\<bar>) y0 x0 (\<bar>y1 - y0\<bar> div 2) ! Suc i)
          - snd (bresenham \<bar>y1 - y0\<bar> \<bar>x1 - x0\<bar> (if y0 < y1 then 1 else - 1)
            (if x0 < x1 then 1 else - 1) (nat \<bar>y1 - y0\<bar>) y0 x0 (\<bar>y1 - y0\<bar> div 2) ! i)\<bar> = 1"
    using i by (intro bresenham_neighbours) simp_all
  then show ?thesis
    using i by (simp add: line_pixels_y_major [OF False] max.commute)
qed

lemma line_pixels_reversed:
  "line_pixels x1 y1 x0 y0 =
     map (\<lambda>(x, y). (x0 + x1 - x, y0 + y1 - y)) (line_pixels x0 y0 x1 y1)"
proof (cases "\<bar>x1 - x0\<bar> > \<bar>y1 - y0\<bar>")
  case True
  then have rev: "\<bar>x0 - x1\<bar> > \<bar>y0 - y1\<bar>"
    by simp
  have abs: "\<bar>x0 - x1\<bar> = \<bar>x1 - x0\<bar>" "\<bar>y0 - y1\<bar> = \<bar>y1 - y0\<bar>"
    by simp_all
  have sx: "(if x1 < x0 then 1 else - 1) = - (if x0 < x1 then 1 else - 1 :: int)"
    using True by auto
  have sy: "\<bar>y1 - y0\<bar> = 0 \<or> (if y1 < y0 then 1 else - 1) = - (if y0 < y1 then 1 else - 1 :: int)"
    by auto
  have "bresenham \<bar>x1 - x0\<bar> \<bar>y1 - y0\<bar> (- (if x0 < x1 then 1 else - 1))
          (if y1 < y0 then 1 else - 1) (nat \<bar>x1 - x0\<bar>) x1 y1 (\<bar>x1 - x0\<bar> div 2) =
        map (\<lambda>(p, q). (x0 + x1 - p, y0 + y1 - q))
          (bresenham \<bar>x1 - x0\<bar> \<bar>y1 - y0\<bar> (if x0 < x1 then 1 else - 1)
             (if y0 < y1 then 1 else - 1) (nat \<bar>x1 - x0\<bar>) x0 y0 (\<bar>x1 - x0\<bar> div 2))"
    using sy by (intro bresenham_reverse) simp_all
  then show ?thesis
    by (simp only: line_pixels_x_major [OF True] line_pixels_x_major [OF rev] abs sx)
next
  case False
  then have rev: "\<not> \<bar>x0 - x1\<bar> > \<bar>y0 - y1\<bar>"
    by simp
  have abs: "\<bar>x0 - x1\<bar> = \<bar>x1 - x0\<bar>" "\<bar>y0 - y1\<bar> = \<bar>y1 - y0\<bar>"
    by simp_all
  show ?thesis
  proof (cases "y1 = y0")
    case True
    with False show ?thesis
      by simp
  next
    case ne: False
    have sy: "(if y1 < y0 then 1 else - 1) = - (if y0 < y1 then 1 else - 1 :: int)"
      using ne by auto
    have sx: "\<bar>x1 - x0\<bar> = 0 \<or> (if x1 < x0 then 1 else - 1) = - (if x0 < x1 then 1 else - 1 :: int)"
      by auto
    have "bresenham \<bar>y1 - y0\<bar> \<bar>x1 - x0\<bar> (- (if y0 < y1 then 1 else - 1))
            (if x1 < x0 then 1 else - 1) (nat \<bar>y1 - y0\<bar>) y1 x1 (\<bar>y1 - y0\<bar> div 2) =
          map (\<lambda>(p, q). (y0 + y1 - p, x0 + x1 - q))
            (bresenham \<bar>y1 - y0\<bar> \<bar>x1 - x0\<bar> (if y0 < y1 then 1 else - 1)
               (if x0 < x1 then 1 else - 1) (nat \<bar>y1 - y0\<bar>) y0 x0 (\<bar>y1 - y0\<bar> div 2))"
      using sx by (intro bresenham_reverse) simp_all
    then show ?thesis
      by (simp only: line_pixels_y_major [OF False] line_pixels_y_major [OF rev] abs sy)
         (simp add: comp_def case_prod_unfold)
  qed
qed

subsection \<open>Shapes that clip\<close>

lemma set_pixel_clipped_returns: "\<exists>buf'. set_pixel_clipped px py c buf = Inr buf'"
  by (simp add: set_pixel_clipped_def set_pixel_def)

lemma for_each_returns:
  assumes "\<And>v b. \<exists>b'. body v b = Inr b'"
  shows "\<exists>buf'. for_each vs body buf = Inr buf'"
proof (induction vs arbitrary: buf)
  case Nil
  then show ?case by simp
next
  case (Cons v vs)
  from assms obtain b' where "body v buf = Inr b'"
    by blast
  with Cons.IH [of b'] show ?case
    by simp
qed

text \<open>
  The tolerant half of C2: \<open>draw_circle\<close> and \<open>draw_rectangle\<close> return for all integer
  arguments, with or without a fill colour, and never raise.
\<close>

lemma draw_rectangle_never_raises:
  "\<exists>buf'. draw_rectangle x0 y0 x1 y1 outline_color fill_color buf = Inr buf'"
proof -
  have inner: "\<exists>b'. for_each vs (\<lambda>v. set_pixel_clipped (f v) (g v) c) b = Inr b'"
    for vs :: "int list" and f g c b
    by (rule for_each_returns) (rule set_pixel_clipped_returns)
  obtain buf1 where 1: "(case fill_color of
        None \<Rightarrow> Inr buf
      | Some fc \<Rightarrow>
          for_each [min y0 y1 + 1..max y0 y1 - 1] (\<lambda>y.
            for_each [min x0 x1 + 1..max x0 x1 - 1] (\<lambda>x.
              set_pixel_clipped x y fc)) buf) = Inr buf1"
  proof (cases fill_color)
    case None
    then show ?thesis using that by simp
  next
    case (Some fc)
    have "\<exists>b'. for_each [min y0 y1 + 1..max y0 y1 - 1] (\<lambda>y.
        for_each [min x0 x1 + 1..max x0 x1 - 1] (\<lambda>x. set_pixel_clipped x y fc)) buf = Inr b'"
      by (rule for_each_returns) (rule inner [of _ "\<lambda>x. x"])
    then show ?thesis using that Some by auto
  qed
  obtain buf2 where 2: "for_each [min x0 x1..max x0 x1] (\<lambda>x.
      for_each [min y0 y1, max y0 y1] (\<lambda>y. set_pixel_clipped x y outline_color)) buf1 = Inr buf2"
    using for_each_returns [of "\<lambda>x. for_each [min y0 y1, max y0 y1]
        (\<lambda>y. set_pixel_clipped x y outline_color)"] inner [of _ _ "\<lambda>y. y"]
    by meson
  have "\<exists>b'. for_each [min y0 y1..max y0 y1] (\<lambda>y.
      for_each [min x0 x1, max x0 x1] (\<lambda>x. set_pixel_clipped x y outline_color)) buf2 = Inr b'"
    by (rule for_each_returns) (rule inner [of _ "\<lambda>x. x"])
  then show ?thesis
    by (simp add: draw_rectangle_def 1 2)
qed

lemma draw_circle_never_raises:
  "\<exists>buf'. draw_circle cx cy radius outline_color fill_color buf = Inr buf'"
proof -
  obtain buf1 where 1: "(case fill_color of
        None \<Rightarrow> Inr buf
      | Some fc \<Rightarrow>
          for_each [- radius..radius] (\<lambda>y_off.
            for_each [- radius..radius] (\<lambda>x_off b.
              if x_off * x_off + y_off * y_off \<le> radius * radius
              then set_pixel_clipped (cx + x_off) (cy + y_off) fc b
              else Inr b)) buf) = Inr buf1"
  proof (cases fill_color)
    case None
    then show ?thesis using that by simp
  next
    case (Some fc)
    have body: "\<exists>b'. (if x_off * x_off + y_off * y_off \<le> radius * radius
        then set_pixel_clipped (cx + x_off) (cy + y_off) fc b else Inr b) = Inr b'"
      for x_off y_off b
      using set_pixel_clipped_returns by simp
    have "\<exists>b'. for_each [- radius..radius] (\<lambda>y_off.
        for_each [- radius..radius] (\<lambda>x_off b.
          if x_off * x_off + y_off * y_off \<le> radius * radius
          then set_pixel_clipped (cx + x_off) (cy + y_off) fc b
          else Inr b)) buf = Inr b'"
      by (rule for_each_returns) (rule for_each_returns, rule body)
    then show ?thesis using that Some by auto
  qed
  have "\<exists>b'. for_each (circle_outline cx cy radius 0 (1 - radius) [])
      (\<lambda>(px, py). set_pixel_clipped px py outline_color) buf1 = Inr b'"
    by (rule for_each_returns) (simp add: set_pixel_clipped_returns split: prod.splits)
  then show ?thesis
    by (simp add: draw_circle_def 1)
qed

section \<open>Lines that leave the canvas\<close>

text \<open>
  C2 says that no rasterizer operation raises CoordinateOutOfBounds. \<open>draw_circle\<close> and
  \<open>draw_rectangle\<close> never do (\<open>draw_circle_never_raises\<close>,
  \<open>draw_rectangle_never_raises\<close>), but \<open>draw_line\<close> has no test before its calls of
  \<open>set_pixel\<close>: a line that starts off the canvas raises at once, and a line that
  leaves the canvas raises at the first pixel outside, after writing the pixels inside.
\<close>

theorem draw_line_raises_off_canvas:
  "draw_line (- 1) 0 1 0 c buf = Some (Inl (CoordinateOutOfBounds (- 1) 0, buf))
   \<and> draw_line 62 0 65 0 c buf =
       Some (Inl (CoordinateOutOfBounds 64 0, buf((62, 0) := c, (63, 0) := c)))"
  by (simp add: draw_line_set_pixels line_pixels_def Let_def eval_nat_numeral
      set_pixel_def buffer_width_def)

section \<open>A line and its reverse\<close>

text \<open>
  C8 as stated: for endpoints on the canvas, \<open>draw_line(x0, y0, x1, y1, color)\<close> and
  \<open>draw_line(x1, y1, x0, y0, color)\<close> write the same set of pixels. It fails for the
  endpoints (0, 0) and (2, 1): on a black image, the line from (0, 0) writes (1, 0) and
  the line from (2, 1) writes (1, 1) instead.
\<close>

theorem reversed_line_differs:
  "draw_line 0 0 2 1 (255, 255, 255) init_buffer =
     Some (Inr (paint [(0, 0), (1, 0), (2, 1)] (255, 255, 255) init_buffer))
   \<and> draw_line 2 1 0 0 (255, 255, 255) init_buffer =
     Some (Inr (paint [(2, 1), (1, 1), (0, 0)] (255, 255, 255) init_buffer))
   \<and> paint [(0, 0), (1, 0), (2, 1)] (255, 255, 255) init_buffer (1, 0) = (255, 255, 255)
   \<and> paint [(2, 1), (1, 1), (0, 0)] (255, 255, 255) init_buffer (1, 0) = (0, 0, 0)"
proof -
  have fwd: "line_pixels 0 0 2 1 = [(0, 0), (1, 0), (2, 1)]"
    and bwd: "line_pixels 2 1 0 0 = [(2, 1), (1, 1), (0, 0)]"
    by (simp_all add: line_pixels_def Let_def eval_nat_numeral)
  have "set_pixels (line_pixels 0 0 2 1) (255, 255, 255) init_buffer =
      Inr (paint (line_pixels 0 0 2 1) (255, 255, 255) init_buffer)"
    by (rule set_pixels_on_canvas) (simp add: fwd on_canvas_def buffer_width_def)
  moreover have "set_pixels (line_pixels 2 1 0 0) (255, 255, 255) init_buffer =
      Inr (paint (line_pixels 2 1 0 0) (255, 255, 255) init_buffer)"
    by (rule set_pixels_on_canvas) (simp add: bwd on_canvas_def buffer_width_def)
  ultimately show ?thesis
    by (simp add: draw_line_set_pixels fwd bwd paint_def init_buffer_def)
qed

text \<open>
  C8 as amended: the line rasterizer works in all directions. For endpoints on the
  canvas and every colour, \<open>draw_line\<close> returns without error, having written exactly the
  pixels of \<open>line_pixels\<close>: they start at \<open>(x0, y0)\<close> and end at \<open>(x1, y1)\<close>, there are
  \<open>max(|x1 - x0|, |y1 - y0|) + 1\<close> of them, one per step along the major axis, no pixel
  occurs twice, and each is a neighbour (straight or diagonal) of the one before. The line
  drawn from the other endpoint writes the point reflection of this set through the
  midpoint of the endpoints, \<open>(x, y) \<mapsto> (x0 + x1 - x, y0 + y1 - y)\<close>, which is not always
  the same set.
\<close>

theorem draw_line_reversal:
  assumes "on_canvas (x0, y0)" and "on_canvas (x1, y1)"
  shows "draw_line x0 y0 x1 y1 c buf = Some (Inr (paint (line_pixels x0 y0 x1 y1) c buf))
         \<and> draw_line x1 y1 x0 y0 c buf =
             Some (Inr (paint (map (\<lambda>(x, y). (x0 + x1 - x, y0 + y1 - y))
                                (line_pixels x0 y0 x1 y1)) c buf))
         \<and> hd (line_pixels x0 y0 x1 y1) = (x0, y0)
         \<and> last (line_pixels x0 y0 x1 y1) = (x1, y1)
         \<and> length (line_pixels x0 y0 x1 y1) = nat (max \<bar>x1 - x0\<bar> \<bar>y1 - y0\<bar>) + 1
         \<and> distinct (line_pixels x0 y0 x1 y1)
         \<and> (\<forall>i. Suc i < length (line_pixels x0 y0 x1 y1) \<longrightarrow>
              max \<bar>fst (line_pixels x0 y0 x1 y1 ! Suc i) - fst (line_pixels x0 y0 x1 y1 ! i)\<bar>
                  \<bar>snd (line_pixels x0 y0 x1 y1 ! Suc i) - snd (line_pixels x0 y0 x1 y1 ! i)\<bar>
              = 1)"
proof -
  have "set_pixels (line_pixels x0 y0 x1 y1) c buf = Inr (paint (line_pixels x0 y0 x1 y1) c buf)"
    by (rule set_pixels_on_canvas) (rule line_pixels_on_canvas [OF assms])
  then have fwd: "draw_line x0 y0 x1 y1 c buf =
      Some (Inr (paint (line_pixels x0 y0 x1 y1) c buf))"
    by (simp add: draw_line_set_pixels)
  have "set_pixels (line_pixels x1 y1 x0 y0) c buf = Inr (paint (line_pixels x1 y1 x0 y0) c buf)"
    by (rule set_pixels_on_canvas) (rule line_pixels_on_canvas [OF assms(2,1)])
  then have bwd: "draw_line x1 y1 x0 y0 c buf =
      Some (Inr (paint (map (\<lambda>(x, y). (x0 + x1 - x, y0 + y1 - y))
                         (line_pixels x0 y0 x1 y1)) c buf))"
    by (simp add: draw_line_set_pixels line_pixels_reversed [of x1 y1 x0 y0])
  show ?thesis
    using fwd bwd hd_line_pixels [of x0 y0 x1 y1] last_line_pixels [of x0 y0 x1 y1]
      length_line_pixels [of x0 y0 x1 y1] distinct_line_pixels [of x0 y0 x1 y1]
      line_pixels_neighbours [of _ x0 y0 x1 y1]
    by blast
qed

theorem draw_line_reversal_witness:
  "on_canvas (0, 0) \<and> on_canvas (7, 3)
   \<and> draw_line 0 0 7 3 (255, 0, 0) init_buffer =
       Some (Inr (paint [(0, 0), (1, 0), (2, 1), (3, 1), (4, 2), (5, 2), (6, 3), (7, 3)]
                    (255, 0, 0) init_buffer))
   \<and> draw_line 7 3 0 0 (255, 0, 0) init_buffer =
       Some (Inr (paint [(7, 3), (6, 3), (5, 2), (4, 2), (3, 1), (2, 1), (1, 0), (0, 0)]
                    (255, 0, 0) init_buffer))
   \<and> length (line_pixels 0 0 7 3) = 8"
proof -
  have px: "line_pixels 0 0 7 3 = [(0, 0), (1, 0), (2, 1), (3, 1), (4, 2), (5, 2), (6, 3), (7, 3)]"
    by (simp add: line_pixels_def Let_def eval_nat_numeral)
  have c: "on_canvas (0, 0)" "on_canvas (7, 3)"
    by (simp_all add: on_canvas_def buffer_width_def)
  from draw_line_reversal [OF c, of "(255, 0, 0)" init_buffer] c show ?thesis
    by (simp add: px)
qed

end
